theory Spec2Isabelle
  imports Complex_Main "HOL-Library.AList"
begin

section \<open>JavaScript strings\<close>

text \<open>
  A JavaScript string is a sequence of UTF-16 code units. The model covers the code units
  below 256: a \<^typ>\<open>char\<close> is the code unit with that number, so \<open>length\<close> is the
  \<^verbatim>\<open>.length\<close> of the source. Within that range \<^verbatim>\<open>String.prototype.trim\<close> removes
  TAB, LF, VT, FF, CR, SP and NBSP from both ends, \<^verbatim>\<open>toLowerCase\<close> maps \<^verbatim>\<open>A-Z\<close> and
  the Latin-1 capitals \<^verbatim>\<open>U+00C0-U+00DE\<close> (without \<^verbatim>\<open>U+00D7\<close>) to the code unit 32 above,
  and the regular expression class \<^verbatim>\<open>\d\<close> is \<^verbatim>\<open>[0-9]\<close>.
\<close>

definition is_space :: "char \<Rightarrow> bool" where
  "is_space c \<longleftrightarrow> c \<in> set [CHR 0x09, CHR 0x0A, CHR 0x0B, CHR 0x0C, CHR 0x0D, CHR 0x20, CHR 0xA0]"

definition trim :: "string \<Rightarrow> string" where
  "trim s = rev (dropWhile is_space (rev (dropWhile is_space s)))"

definition lower_char :: "char \<Rightarrow> char" where
  "lower_char c =
     (let n = (of_char c :: nat)
      in if (65 \<le> n \<and> n \<le> 90) \<or> (192 \<le> n \<and> n \<le> 222 \<and> n \<noteq> 215)
         then char_of (n + 32) else c)"

definition toLowerCase :: "string \<Rightarrow> string" where
  "toLowerCase s = map lower_char s"

text \<open>\<^verbatim>\<open>s.slice(-n)\<close>: the last \<open>n\<close> code units, the whole string when it is shorter.\<close>

definition slice_last :: "nat \<Rightarrow> string \<Rightarrow> string" where
  "slice_last n s = drop (length s - n) s"

definition is_digit :: "char \<Rightarrow> bool" where
  "is_digit c \<longleftrightarrow> c \<in> set ''0123456789''"

text \<open>The test \<^verbatim>\<open>/^\d{10}$/.test(s)\<close>: the whole string is ten digits.\<close>

definition ten_digits :: "string \<Rightarrow> bool" where
  "ten_digits s \<longleftrightarrow> length s = 10 \<and> list_all is_digit s"


section \<open>Validation (backendFunctions.js)\<close>

record validation =
  valid :: bool
  message :: string

definition validateName :: "string \<Rightarrow> validation" where
  "validateName nm =
     (if nm = [] \<or> trim nm = [] then
        \<lparr>valid = False, message = ''Please enter your name''\<rparr>
      else if length (trim nm) > 30 then
        \<lparr>valid = False, message = ''Name must not exceed 50 characters''\<rparr>
      else \<lparr>valid = True, message = ''Name is valid''\<rparr>)"

definition validatePhone :: "string \<Rightarrow> validation" where
  "validatePhone ph =
     (if ph = [] \<or> trim ph = [] then
        \<lparr>valid = False, message = ''Please enter your phone number''\<rparr>
      else if length ph \<noteq> 10 then
        \<lparr>valid = False, message = ''Phone number must be exactly 10 digits''\<rparr>
      else if \<not> ten_digits ph then
        \<lparr>valid = False, message = ''Phone number must contain only digits''\<rparr>
      else \<lparr>valid = True, message = ''Phone number is valid''\<rparr>)"


section \<open>The store (queueService.js, partitioned schema)\<close>

text \<open>
  The data lives in a hosted key-value tree; the service reads and writes it through the
  primitives \<^verbatim>\<open>get\<close>, \<^verbatim>\<open>set\<close>, \<^verbatim>\<open>update\<close>, \<^verbatim>\<open>remove\<close> and \<^verbatim>\<open>push\<close>. A node with
  children is modelled as an association list from child key to child value, in the order
  in which \<^verbatim>\<open>Object.entries\<close> enumerates the snapshot; a node without children does not
  exist (\<^verbatim>\<open>snapshot.exists()\<close> is false exactly for the empty list). \<^verbatim>\<open>remove\<close> deletes
  a child (\<open>AList.delete\<close>), \<^verbatim>\<open>set\<close> and \<^verbatim>\<open>push\<close> write a child (\<open>AList.update\<close>: in
  place when the key exists, as a new last child otherwise), \<^verbatim>\<open>update\<close> merges fields into
  an existing child (\<open>AList.map_entry\<close>). Where the store enumerates a new child is its own
  choice; the statements below are about lookups and about the order of the children that
  were there before, and do not depend on it.

  Numbers are JavaScript doubles in the source. Positions, party sizes, counters and
  millisecond timestamps are integers far below \<open>2^53\<close>, where double arithmetic is exact,
  so they are modelled as \<^typ>\<open>int\<close>; \<open>totalServed\<close> starts at 0 and is only ever
  incremented, and is a \<^typ>\<open>nat\<close>. An optional field of an object is an \<open>option\<close>.
\<close>

type_synonym qid = string

record entry =
  name :: string
  partySize :: int
  phone :: string
  position :: int
  createdAt :: int
  updatedAt :: int
  servedAt :: "int option"
  status :: "string option"
  completedAt :: "int option"
  waitTime :: "int option"

record stats =
  totalServed :: nat
  totalPeople :: int
  totalWaitTime :: "int option"
  avgWaitTime :: "int option"
  lastUpdated :: "int option"

record store =
  waiting :: "(qid \<times> entry) list"
  serving :: "(qid \<times> entry) list"
  archived :: "(qid \<times> entry) list"
  daily :: "(string \<times> stats) list"
  monthly :: "(string \<times> stats) list"
  averageServingTime :: "int option"

text \<open>
  The source throws \<^verbatim>\<open>Error\<close> objects that differ in their message only. The three kinds
  of the specification are: \<open>ValidationError\<close> for \<^verbatim>\<open>"Please fill in all fields correctly"\<close>
  and \<^verbatim>\<open>"Please enter a phone number"\<close>, \<open>NotFoundError\<close> for
  \<^verbatim>\<open>"Queue entry not found"\<close>, \<^verbatim>\<open>"Queue entry not found in waiting or serving"\<close>,
  \<^verbatim>\<open>"One or both queue entries not found in waiting queue"\<close> and
  \<^verbatim>\<open>"No queue found with this phone number"\<close>, and \<open>InvalidTransitionError\<close> for
  \<^verbatim>\<open>"Invalid status: ..."\<close>. \<open>InvalidPathError\<close> is the error that \<^verbatim>\<open>ref\<close> of the database
  SDK throws for a path it does not accept; the service passes it on.
\<close>

datatype error = ValidationError | NotFoundError | InvalidTransitionError | InvalidPathError

datatype location = Waiting | Serving

text \<open>
  \<^verbatim>\<open>Math.round(a / b)\<close> for integers \<open>a\<close> and \<open>b > 0\<close>: \<^verbatim>\<open>Math.round\<close> rounds to the
  nearest integer, a half towards \<open>+\<infinity>\<close>, that is \<open>\<lfloor>a / b + 1/2\<rfloor>\<close>. The source divides
  the milliseconds by 1000 and then by 60; a quotient that is exactly a half is computed
  exactly, and every other quotient is further from a half than the rounding error of the
  two divisions, so the result is the one of the exact division by 60000.
\<close>

definition Math_round_div :: "int \<Rightarrow> int \<Rightarrow> int" where
  "Math_round_div a b = (2 * a + b) div (2 * b)"



section \<open>Store paths\<close>

text \<open>
  The service addresses an entry by splicing the id it is given into a path,
  \<^verbatim>\<open>`queues/waiting/${queueId}`\<close>, and handing the path to \<^verbatim>\<open>ref\<close> of the database SDK
  (\<^verbatim>\<open>firebase/database\<close>, which is not part of this repository). Of the SDK's path handling
  the model takes two things: \<^verbatim>\<open>ref\<close> throws for a path with one of the characters
  \<^verbatim>\<open>. # $ [ ]\<close> or an ASCII control character, and a path is the list of its non-empty
  segments between slashes. So the id \<^verbatim>\<open>"A/"\<close> addresses the entry with the key \<^verbatim>\<open>A\<close>, the
  id \<^verbatim>\<open>""\<close> the partition itself, and the id \<^verbatim>\<open>"A/name"\<close> a field of the entry \<^verbatim>\<open>A\<close>.
\<close>

definition forbidden_char :: "char \<Rightarrow> bool" where
  "forbidden_char c \<longleftrightarrow>
     c \<in> set ''.#$[]'' \<or> (of_char c :: nat) < 32 \<or> (of_char c :: nat) = 127"

fun split_slash :: "string \<Rightarrow> string \<Rightarrow> string list" where
  "split_slash piece [] = [rev piece]"
| "split_slash piece (c # cs) =
     (if c = CHR ''/'' then rev piece # split_slash [] cs else split_slash (c # piece) cs)"

datatype ref_result = Invalid_path | Segments "string list"

text \<open>\<open>ref_below queueId\<close>: the path of \<^verbatim>\<open>ref(db, `queues/<partition>/${queueId}`)\<close> below the partition.\<close>

definition ref_below :: "string \<Rightarrow> ref_result" where
  "ref_below queueId =
     (if list_ex forbidden_char queueId then Invalid_path
      else Segments (filter (\<lambda>piece. piece \<noteq> []) (split_slash [] queueId)))"

text \<open>
  What \<^verbatim>\<open>get\<close> finds at a path below a partition: nothing, an entry (with its key), or
  something that is not an entry: the partition itself when the path is empty, a field of
  an entry when the path has a second segment. The fields of an entry are those of the
  object that \<open>joinQueue\<close> writes and those that the transitions add.
\<close>

datatype snapshot = Missing | Doc qid entry | Other

definition has_field :: "string \<Rightarrow> entry \<Rightarrow> bool" where
  "has_field f e \<longleftrightarrow>
     f \<in> set [''name'', ''partySize'', ''phone'', ''position'', ''createdAt'', ''updatedAt'']
     \<or> (f = ''servedAt'' \<and> servedAt e \<noteq> None)
     \<or> (f = ''status'' \<and> status e \<noteq> None)
     \<or> (f = ''completedAt'' \<and> completedAt e \<noteq> None)
     \<or> (f = ''waitTime'' \<and> waitTime e \<noteq> None)"

fun get_below :: "string list \<Rightarrow> (qid \<times> entry) list \<Rightarrow> snapshot" where
  "get_below [] part = (if part = [] then Missing else Other)"
| "get_below [k] part = (case map_of part k of None \<Rightarrow> Missing | Some e \<Rightarrow> Doc k e)"
| "get_below (k # f # rest) part =
     (case map_of part k of
        None \<Rightarrow> Missing
      | Some e \<Rightarrow> if rest = [] \<and> has_field f e then Other else Missing)"

text \<open>An id that is a key: not empty, without a slash and without a forbidden character.\<close>

definition plain_key :: "string \<Rightarrow> bool" where
  "plain_key k \<longleftrightarrow> k \<noteq> [] \<and> CHR ''/'' \<notin> set k \<and> \<not> list_ex forbidden_char k"


section \<open>Helper functions of the service\<close>

text \<open>
  \<open>getNextPosition\<close>: 1 when the waiting node does not exist, else the maximum of the
  positions plus 1 (\<^verbatim>\<open>q.position || 0\<close> is \<open>position q\<close> for a number).
\<close>

definition getNextPosition :: "store \<Rightarrow> int" where
  "getNextPosition s =
     (case map (\<lambda>q. position (snd q)) (waiting s) of
        [] \<Rightarrow> 1
      | p # ps \<Rightarrow> fold max ps p + 1)"



text \<open>
  \<open>updateDailyStats\<close>: \<open>today\<close> is the date \<^verbatim>\<open>YYYY-MM-DD\<close> of the clock, \<open>now\<close> its
  milliseconds. The object written back holds every field of the object read, so the
  merging \<^verbatim>\<open>update\<close> of the store replaces the node. \<open>bump_stats\<close> is the counting that the
  daily and the monthly object share: served plus 1, people plus the party size, wait time
  plus the wait time (\<^verbatim>\<open>x || 0\<close> for a missing field), and the rounded average.
\<close>

definition bump_stats :: "int \<Rightarrow> int \<Rightarrow> stats \<Rightarrow> stats" where
  "bump_stats partySize' waitTime' st =
     (let served = totalServed st + 1;
          people = totalPeople st + partySize';
          wait = (case totalWaitTime st of None \<Rightarrow> 0 | Some w \<Rightarrow> w) + waitTime'
      in st\<lparr>totalServed := served, totalPeople := people, totalWaitTime := Some wait,
            avgWaitTime := Some (Math_round_div wait (int served))\<rparr>)"

definition updateDailyStats :: "string \<Rightarrow> int \<Rightarrow> int \<Rightarrow> int \<Rightarrow> string \<Rightarrow> store \<Rightarrow> store" where
  "updateDailyStats status' partySize' waitTime' now today s =
     (let month = take 7 today;
          currentStats =
            (case map_of (daily s) today of
               Some st \<Rightarrow> st
             | None \<Rightarrow> \<lparr>totalServed = 0, totalPeople = 0, totalWaitTime = Some 0,
                        avgWaitTime = None, lastUpdated = Some now\<rparr>);
          currentStats =
            (if status' = ''completed'' then bump_stats partySize' waitTime' currentStats
             else currentStats);
          currentStats = currentStats\<lparr>lastUpdated := Some now\<rparr>;
          s = s\<lparr>daily := AList.update today currentStats (daily s)\<rparr>
      in if status' = ''completed'' then
           let monthlyStats =
                 (case map_of (monthly s) month of
                    Some st \<Rightarrow> st
                  | None \<Rightarrow> \<lparr>totalServed = 0, totalPeople = 0, totalWaitTime = Some 0,
                             avgWaitTime = None, lastUpdated = None\<rparr>);
               monthlyStats = bump_stats partySize' waitTime' monthlyStats
           in s\<lparr>monthly := AList.update month monthlyStats (monthly s)\<rparr>
         else s)"

definition getDailyStats :: "string \<Rightarrow> int \<Rightarrow> store \<Rightarrow> stats" where
  "getDailyStats today now s =
     (case map_of (daily s) today of
        Some st \<Rightarrow> st
      | None \<Rightarrow> \<lparr>totalServed = 0, totalPeople = 0, totalWaitTime = None,
                 avgWaitTime = Some 0, lastUpdated = Some now\<rparr>)"


section \<open>Customer and staff operations\<close>

text \<open>
  An operation takes the store and returns its result, \<open>Inl\<close> an error or \<open>Inr\<close> a value,
  together with the store it leaves. \<open>joinQueue\<close> takes the key that \<^verbatim>\<open>push\<close> generates as an
  argument. The clock is an argument too: \<open>now\<close> stands for the \<^verbatim>\<open>Date.now()\<close> calls of one
  operation and \<open>today\<close> for the date \<^verbatim>\<open>new Date().toISOString().split("T")[0]\<close>.

  An operation that is given an id returns an \<open>option\<close>. The partitions of the model hold
  entries. When the path of the id addresses something that is not an entry (the partition
  itself, a field of an entry), the source goes on with that value in the place of an
  entry, and what it then returns and writes is not an entry either: such a call is \<open>None\<close>,
  it is outside this model. Every other call is \<open>Some\<close> of what the source does.
\<close>

definition joinQueue :: "string \<Rightarrow> int \<Rightarrow> string \<Rightarrow> qid \<Rightarrow> int \<Rightarrow> store \<Rightarrow> (error + qid) \<times> store" where
  "joinQueue name' partySize' phone' key now s =
     (if trim name' = [] \<or> trim phone' = [] \<or> partySize' < 1 then (Inl ValidationError, s)
      else
        let pos = getNextPosition s;
            e = \<lparr>name = trim name', partySize = partySize', phone = trim phone',
                 position = pos, createdAt = now, updatedAt = now, servedAt = None,
                 status = None, completedAt = None, waitTime = None\<rparr>
        in (Inr key, s\<lparr>waiting := AList.update key e (waiting s)\<rparr>))"



text \<open>
  The pieces of \<open>updateQueueStatus\<close>: \<open>locate\<close> is the lookup that sets \<^verbatim>\<open>queueData\<close> and
  \<^verbatim>\<open>currentLocation\<close> (the path in waiting first, then in serving; \<open>Found\<close> carries the key
  that the path addresses), \<open>compute_waitTime\<close> the wait time
  (\<^verbatim>\<open>queueData.createdAt && queueData.servedAt\<close> holds when both are there and not 0), and
  \<open>remove_from\<close> the removal from the current location.
\<close>

datatype located = Bad_path | Not_found | Not_an_entry | Found qid entry location

definition locate :: "string \<Rightarrow> store \<Rightarrow> located" where
  "locate queueId s =
     (case ref_below queueId of
        Invalid_path \<Rightarrow> Bad_path
      | Segments path \<Rightarrow>
          (case get_below path (waiting s) of
             Doc k e \<Rightarrow> Found k e Waiting
           | Other \<Rightarrow> Not_an_entry
           | Missing \<Rightarrow>
               (case get_below path (serving s) of
                  Doc k e \<Rightarrow> Found k e Serving
                | Other \<Rightarrow> Not_an_entry
                | Missing \<Rightarrow> Not_found)))"

definition compute_waitTime :: "entry \<Rightarrow> int" where
  "compute_waitTime queueData =
     (case servedAt queueData of
        Some sa \<Rightarrow>
          if createdAt queueData \<noteq> 0 \<and> sa \<noteq> 0
          then Math_round_div (sa - createdAt queueData) 60000 else 0
      | None \<Rightarrow> 0)"

definition remove_from :: "location \<Rightarrow> qid \<Rightarrow> store \<Rightarrow> store" where
  "remove_from loc k s =
     (case loc of
        Waiting \<Rightarrow> s\<lparr>waiting := AList.delete k (waiting s)\<rparr>
      | Serving \<Rightarrow> s\<lparr>serving := AList.delete k (serving s)\<rparr>)"

definition updateQueueStatus ::
  "string \<Rightarrow> string \<Rightarrow> int \<Rightarrow> string \<Rightarrow> store \<Rightarrow> ((error + unit) \<times> store) option" where
  "updateQueueStatus queueId newStatus now today s =
     (if newStatus \<notin> set [''serving'', ''completed'', ''skipped''] then
        Some (Inl InvalidTransitionError, s)
      else
        case locate queueId s of
          Bad_path \<Rightarrow> Some (Inl InvalidPathError, s)
        | Not_found \<Rightarrow> Some (Inl NotFoundError, s)
        | Not_an_entry \<Rightarrow> None
        | Found k queueData currentLocation \<Rightarrow>
            if newStatus = ''serving'' then
              (if currentLocation = Waiting then
                 let s = s\<lparr>waiting := AList.delete k (waiting s)\<rparr>;
                     s = s\<lparr>serving :=
                            AList.update k
                              (queueData\<lparr>servedAt := Some now, updatedAt := now\<rparr>)
                              (serving s)\<rparr>
                 in Some (Inr (), s)
               else Some (Inr (), s))
            else
              let waitTime' = compute_waitTime queueData;
                  s = remove_from currentLocation k s;
                  s = s\<lparr>archived :=
                         AList.update k
                           (queueData\<lparr>status := Some newStatus, completedAt := Some now,
                                       waitTime := Some waitTime'\<rparr>)
                           (archived s)\<rparr>;
                  s = updateDailyStats newStatus
                        (if partySize queueData = 0 then 1 else partySize queueData)
                        waitTime' now today s
              in Some (Inr (), s))"

text \<open>
  \<open>reorderQueues\<close>: both \<^verbatim>\<open>ref\<close> calls come before the test of existence, and the test
  before the positions are read.
\<close>

definition reorderQueues :: "string \<Rightarrow> string \<Rightarrow> store \<Rightarrow> ((error + unit) \<times> store) option" where
  "reorderQueues queueId1 queueId2 s =
     (case ref_below queueId1 of
        Invalid_path \<Rightarrow> Some (Inl InvalidPathError, s)
      | Segments path1 \<Rightarrow>
          (case ref_below queueId2 of
             Invalid_path \<Rightarrow> Some (Inl InvalidPathError, s)
           | Segments path2 \<Rightarrow>
               let doc1 = get_below path1 (waiting s);
                   doc2 = get_below path2 (waiting s)
               in if doc1 = Missing \<or> doc2 = Missing then Some (Inl NotFoundError, s)
                  else
                    (case doc1 of
                       Doc k1 e1 \<Rightarrow>
                         (case doc2 of
                            Doc k2 e2 \<Rightarrow>
                              let pos1 = position e1;
                                  pos2 = position e2;
                                  s = s\<lparr>waiting :=
                                         AList.map_entry k1 (\<lambda>e. e\<lparr>position := pos2\<rparr>) (waiting s)\<rparr>;
                                  s = s\<lparr>waiting :=
                                         AList.map_entry k2 (\<lambda>e. e\<lparr>position := pos1\<rparr>) (waiting s)\<rparr>
                              in Some (Inr (), s)
                          | _ \<Rightarrow> None)
                     | _ \<Rightarrow> None)))"

text \<open>
  \<open>deleteQueueEntry\<close> removes what the path addresses in waiting and in serving: an entry,
  the partitions themselves for the empty path, nothing when nothing is there.
\<close>

definition deleteQueueEntry :: "string \<Rightarrow> store \<Rightarrow> ((error + unit) \<times> store) option" where
  "deleteQueueEntry queueId s =
     (case ref_below queueId of
        Invalid_path \<Rightarrow> Some (Inl InvalidPathError, s)
      | Segments path \<Rightarrow>
          (case path of
             [] \<Rightarrow> Some (Inr (), s\<lparr>waiting := [], serving := []\<rparr>)
           | [k] \<Rightarrow>
               let s = s\<lparr>waiting := AList.delete k (waiting s)\<rparr>;
                   s = s\<lparr>serving := AList.delete k (serving s)\<rparr>
               in Some (Inr (), s)
           | _ \<Rightarrow>
               if get_below path (waiting s) = Missing \<and> get_below path (serving s) = Missing
               then Some (Inr (), s) else None))"

record search_result =
  sr_id :: qid
  sr_status :: string
  sr_entry :: entry

text \<open>
  The loop of \<open>searchQueueByPhone\<close> over one partition: an entry without a phone is
  skipped, the first entry whose trimmed, lower-cased phone equals the cleaned search term
  or has the same last 7 characters is returned.
\<close>

fun phone_scan :: "string \<Rightarrow> (qid \<times> entry) list \<Rightarrow> (qid \<times> entry) option" where
  "phone_scan cleanSearchPhone [] = None"
| "phone_scan cleanSearchPhone ((queueId, queueData) # rest) =
     (if phone queueData = [] then phone_scan cleanSearchPhone rest
      else
        let queuePhone = toLowerCase (trim (phone queueData))
        in if queuePhone = cleanSearchPhone
              \<or> slice_last 7 queuePhone = slice_last 7 cleanSearchPhone
           then Some (queueId, queueData)
           else phone_scan cleanSearchPhone rest)"

text \<open>
  The result is \<^verbatim>\<open>{id, status: "waiting", ...queueData}\<close>: a \<open>status\<close> field of the stored
  object would override the partition's name.
\<close>

definition found_in :: "string \<Rightarrow> qid \<times> entry \<Rightarrow> search_result" where
  "found_in part q =
     \<lparr>sr_id = fst q,
      sr_status = (case status (snd q) of None \<Rightarrow> part | Some st \<Rightarrow> st),
      sr_entry = snd q\<rparr>"

definition searchQueueByPhone :: "string \<Rightarrow> store \<Rightarrow> error + search_result" where
  "searchQueueByPhone phone' s =
     (if phone' = [] \<or> trim phone' = [] then Inl ValidationError
      else
        let cleanSearchPhone = toLowerCase (trim phone')
        in case phone_scan cleanSearchPhone (waiting s) of
             Some q \<Rightarrow> Inr (found_in ''waiting'' q)
           | None \<Rightarrow>
               (case phone_scan cleanSearchPhone (serving s) of
                  Some q \<Rightarrow> Inr (found_in ''serving'' q)
                | None \<Rightarrow> Inl NotFoundError))"

text \<open>A run of joins, one after the other, each with its pushed key and clock value.\<close>

record join_request =
  jr_name :: string
  jr_partySize :: int
  jr_phone :: string
  jr_key :: qid
  jr_now :: int

fun joinAll :: "join_request list \<Rightarrow> store \<Rightarrow> store" where
  "joinAll [] s = s"
| "joinAll (r # rs) s =
     joinAll rs (snd (joinQueue (jr_name r) (jr_partySize r) (jr_phone r) (jr_key r) (jr_now r) s))"

definition valid_request :: "join_request \<Rightarrow> bool" where
  "valid_request r \<longleftrightarrow> trim (jr_name r) \<noteq> [] \<and> trim (jr_phone r) \<noteq> [] \<and> 1 \<le> jr_partySize r"

definition empty_store :: store where
  "empty_store = \<lparr>waiting = [], serving = [], archived = [], daily = [], monthly = [],
                  averageServingTime = None\<rparr>"


section \<open>Example stores and requests\<close>

definition alice :: entry where
  "alice = \<lparr>name = ''Alice'', partySize = 2, phone = ''1111111111'', position = 1,
            createdAt = 60000, updatedAt = 60000, servedAt = None, status = None,
            completedAt = None, waitTime = None\<rparr>"

definition bob :: entry where
  "bob = \<lparr>name = ''Bob'', partySize = 1, phone = ''2222222222'', position = 2,
          createdAt = 120000, updatedAt = 120000, servedAt = None, status = None,
          completedAt = None, waitTime = None\<rparr>"

definition alice_serving :: entry where
  "alice_serving = alice\<lparr>servedAt := Some 180000, updatedAt := 180000\<rparr>"

definition two_waiting :: store where
  "two_waiting = empty_store\<lparr>waiting := [(''A'', alice), (''B'', bob)]\<rparr>"

definition one_serving :: store where
  "one_serving = empty_store\<lparr>waiting := [(''B'', bob)], serving := [(''A'', alice_serving)]\<rparr>"

definition three_requests :: "join_request list" where
  "three_requests =
     [\<lparr>jr_name = ''Alice'', jr_partySize = 2, jr_phone = ''1111111111'', jr_key = ''A'',
       jr_now = 60000\<rparr>,
      \<lparr>jr_name = '' Bob '', jr_partySize = 1, jr_phone = ''2222222222'', jr_key = ''B'',
       jr_now = 120000\<rparr>,
      \<lparr>jr_name = ''Carol'', jr_partySize = 4, jr_phone = ''3333333333'', jr_key = ''C'',
       jr_now = 150000\<rparr>]"


definition lettered :: store where
  "lettered = empty_store\<lparr>waiting := [(''L'', alice\<lparr>phone := ''EXT1234''\<rparr>)]\<rparr>"


section \<open>Ranks and phone comparisons\<close>


text \<open>
  The comparison of the search in the specification's words: the stored phone equals the
  trimmed search term or agrees with it on the last 7 characters.
\<close>

definition spec_phone_match :: "string \<Rightarrow> entry \<Rightarrow> bool" where
  "spec_phone_match term e \<longleftrightarrow>
     phone e = trim term \<or> slice_last 7 (phone e) = slice_last 7 (trim term)"

text \<open>
  The comparison of the search as the loop makes it: the stored phone is present, and its
  trimmed, lower-cased form equals the cleaned search term or has the same last 7
  characters.
\<close>

definition phone_matches :: "string \<Rightarrow> entry \<Rightarrow> bool" where
  "phone_matches clean e \<longleftrightarrow>
     phone e \<noteq> [] \<and>
     (toLowerCase (trim (phone e)) = clean
      \<or> slice_last 7 (toLowerCase (trim (phone e))) = slice_last 7 clean)"


text \<open>
  What every store built by the operations below satisfies: each partition is a map (its
  keys are distinct), the keys of waiting and serving are keys as \<^verbatim>\<open>push\<close> generates them,
  and the entries in waiting and serving have a party size of at least 1, as \<open>joinQueue\<close>
  demands.
\<close>

definition store_inv :: "store \<Rightarrow> bool" where
  "store_inv s \<longleftrightarrow>
     distinct (map fst (waiting s)) \<and> distinct (map fst (serving s))
     \<and> distinct (map fst (archived s))
     \<and> list_all (\<lambda>q. plain_key (fst q) \<and> 1 \<le> partySize (snd q)) (waiting s)
     \<and> list_all (\<lambda>q. plain_key (fst q) \<and> 1 \<le> partySize (snd q)) (serving s)"


section \<open>Properties of the validation functions\<close>

lemma trim_Nil [simp]: "trim [] = []"
  by (simp add: trim_def)

lemma trim_no_space:
  assumes "s \<noteq> []" "\<not> is_space (hd s)" "\<not> is_space (last s)"
  shows "trim s = s"
proof -
  from assms have a: "dropWhile is_space s = s"
    by (cases s) simp_all
  from assms have "rev s \<noteq> []" "\<not> is_space (hd (rev s))"
    by (simp_all add: hd_rev)
  then have "dropWhile is_space (rev s) = rev s"
    by (cases "rev s") simp_all
  with a show ?thesis
    by (simp add: trim_def)
qed

lemma digit_not_space: "is_digit c \<Longrightarrow> \<not> is_space c"
  by (auto simp: is_digit_def is_space_def)

lemma digits_trim:
  assumes "p \<noteq> []" and "list_all is_digit p"
  shows "trim p = p"
proof (rule trim_no_space)
  show "p \<noteq> []" by fact
  from assms have all: "\<forall>c\<in>set p. is_digit c"
    by (simp add: list_all_iff)
  from assms(1) all show "\<not> is_space (hd p)"
    by (simp add: digit_not_space)
  from assms(1) all show "\<not> is_space (last p)"
    by (simp add: digit_not_space)
qed

lemma ten_digits_trim: "ten_digits ph \<Longrightarrow> trim ph = ph"
  by (rule digits_trim) (auto simp: ten_digits_def)

text \<open>
  C8. \<open>validatePhone p\<close> is valid exactly when \<open>p\<close> has exactly 10 characters and all of
  them are ASCII digits. In particular \<^verbatim>\<open>"1234567890"\<close> is valid, while
  \<^verbatim>\<open>"123456789"\<close> (9 digits), \<^verbatim>\<open>"12345678901"\<close> (11 digits) and \<^verbatim>\<open>"123abc7890"\<close>
  are invalid.
\<close>

theorem validatePhone_valid_iff:
  "(valid (validatePhone p) \<longleftrightarrow> length p = 10 \<and> list_all is_digit p)
   \<and> valid (validatePhone ''1234567890'')
   \<and> \<not> valid (validatePhone ''123456789'')
   \<and> \<not> valid (validatePhone ''12345678901'')
   \<and> \<not> valid (validatePhone ''123abc7890'')"
proof -
  have iff: "valid (validatePhone q) \<longleftrightarrow> length q = 10 \<and> list_all is_digit q" for q
  proof (cases "ten_digits q")
    case True
    then have "trim q = q" "q \<noteq> []" "length q = 10"
      by (auto simp: ten_digits_trim ten_digits_def)
    with True show ?thesis
      by (simp add: validatePhone_def ten_digits_def)
  next
    case False
    then show ?thesis
      by (auto simp: validatePhone_def ten_digits_def)
  qed
  have "length ''1234567890'' = 10 \<and> list_all is_digit ''1234567890''"
    by (simp add: is_digit_def)
  moreover have "length ''123456789'' \<noteq> 10" "length ''12345678901'' \<noteq> 10"
    by simp_all
  moreover have "\<not> list_all is_digit ''123abc7890''"
    by (simp add: is_digit_def)
  ultimately show ?thesis
    using iff by blast
qed

text \<open>
  C9. \<open>validateName\<close> accepts a name exactly when its trimmed length is between 1 and 30:
  every name whose trimmed length exceeds 30 is rejected, and the message of that rejection
  states a limit of 50 characters. A name of 31 letters is rejected with
  \<^verbatim>\<open>"Name must not exceed 50 characters"\<close>.
\<close>

theorem validateName_limit_30_message_50:
  "(30 < length (trim nm) \<longrightarrow>
      validateName nm = \<lparr>valid = False, message = ''Name must not exceed 50 characters''\<rparr>)
   \<and> (valid (validateName nm) \<longleftrightarrow> 0 < length (trim nm) \<and> length (trim nm) \<le> 30)
   \<and> validateName ''abcdefghijklmnopqrstuvwxyzabcde''
       = \<lparr>valid = False, message = ''Name must not exceed 50 characters''\<rparr>
   \<and> valid (validateName ''abcdefghijklmnopqrstuvwxyzabcd'')"
proof -
  have a: "30 < length (trim nm) \<longrightarrow>
      validateName nm = \<lparr>valid = False, message = ''Name must not exceed 50 characters''\<rparr>"
    by (auto simp: validateName_def)
  have b: "valid (validateName nm) \<longleftrightarrow> 0 < length (trim nm) \<and> length (trim nm) \<le> 30"
    by (auto simp: validateName_def)
  have t31: "trim ''abcdefghijklmnopqrstuvwxyzabcde'' = ''abcdefghijklmnopqrstuvwxyzabcde''"
    by (rule trim_no_space) (simp_all add: is_space_def)
  have t30: "trim ''abcdefghijklmnopqrstuvwxyzabcd'' = ''abcdefghijklmnopqrstuvwxyzabcd''"
    by (rule trim_no_space) (simp_all add: is_space_def)
  have c: "validateName ''abcdefghijklmnopqrstuvwxyzabcde''
       = \<lparr>valid = False, message = ''Name must not exceed 50 characters''\<rparr>"
    by (simp add: validateName_def t31)
  have d: "valid (validateName ''abcdefghijklmnopqrstuvwxyzabcd'')"
    by (simp add: validateName_def t30)
  from a b c d show ?thesis
    by blast
qed

theorem validateName_limit_30_message_50_witness:
  "30 < length (trim ''  Bartholomew Maximilian Fitzgerald  '')
   \<and> validateName ''  Bartholomew Maximilian Fitzgerald  ''
       = \<lparr>valid = False, message = ''Name must not exceed 50 characters''\<rparr>"
proof -
  have t: "trim ''  Bartholomew Maximilian Fitzgerald  '' = ''Bartholomew Maximilian Fitzgerald''"
    by (simp add: trim_def is_space_def)
  then have h: "30 < length (trim ''  Bartholomew Maximilian Fitzgerald  '')"
    by simp
  from validateName_limit_30_message_50 [of "''  Bartholomew Maximilian Fitzgerald  ''"] h
  show ?thesis
    by blast
qed


section \<open>Properties of paths and association lists\<close>

lemma split_slash_no_slash: "CHR ''/'' \<notin> set k \<Longrightarrow> split_slash piece k = [rev piece @ k]"
  by (induction k arbitrary: piece) auto

lemma ref_below_plain_key: "plain_key k \<Longrightarrow> ref_below k = Segments [k]"
  by (simp add: plain_key_def ref_below_def split_slash_no_slash)

lemma get_below_Doc:
  "get_below path part = Doc k e \<longleftrightarrow> path = [k] \<and> map_of part k = Some e"
  by (induction path part rule: get_below.induct) (auto split: option.splits)

lemma get_below_key_Missing [simp]:
  "get_below [k] part = Missing \<longleftrightarrow> map_of part k = None"
  by (simp split: option.splits)

lemma locate_key:
  assumes "ref_below queueId = Segments [k]"
  shows "locate queueId s =
     (case map_of (waiting s) k of
        Some e \<Rightarrow> Found k e Waiting
      | None \<Rightarrow>
          (case map_of (serving s) k of
             Some e \<Rightarrow> Found k e Serving
           | None \<Rightarrow> Not_found))"
  using assms by (simp add: locate_def split: option.splits)

lemma locate_Found_Waiting:
  "locate queueId s = Found k e Waiting \<longleftrightarrow>
     ref_below queueId = Segments [k] \<and> map_of (waiting s) k = Some e"
  by (auto simp: locate_def get_below_Doc split: ref_result.splits snapshot.splits)

lemma locate_Found_Serving:
  "locate queueId s = Found k e Serving \<longleftrightarrow>
     ref_below queueId = Segments [k] \<and> map_of (waiting s) k = None
     \<and> map_of (serving s) k = Some e"
  by (auto simp: locate_def get_below_Doc split: ref_result.splits snapshot.splits option.splits)

lemma locate_Not_found:
  "locate queueId s = Not_found \<longleftrightarrow>
     (\<exists>path. ref_below queueId = Segments path \<and> get_below path (waiting s) = Missing
        \<and> get_below path (serving s) = Missing)"
  by (auto simp: locate_def split: ref_result.splits snapshot.splits)

lemma locate_Bad_path: "locate queueId s = Bad_path \<longleftrightarrow> ref_below queueId = Invalid_path"
  by (auto simp: locate_def split: ref_result.splits snapshot.splits)

lemma map_entry_id:
  "map_of xs k = Some v \<Longrightarrow> f v = v \<Longrightarrow> AList.map_entry k f xs = xs"
  by (induction xs) (auto split: if_splits)

lemma map_entry_twice:
  "AList.map_entry k g (AList.map_entry k f xs) = AList.map_entry k (\<lambda>v. g (f v)) xs"
  by (induction xs) auto

lemma map_entry_commute:
  "a \<noteq> b \<Longrightarrow>
   AList.map_entry a f (AList.map_entry b g xs) = AList.map_entry b g (AList.map_entry a f xs)"
  by (induction xs) auto

lemma map_entry_keys: "map fst (AList.map_entry k f xs) = map fst xs"
  by (induction xs) auto

lemma example_paths:
  "ref_below ''A'' = Segments [''A'']" "ref_below ''B'' = Segments [''B'']"
  "ref_below ''Z'' = Segments [''Z'']" "ref_below ''A/'' = Segments [''A'']"
  "ref_below ''B/'' = Segments [''B'']" "ref_below ''Z/name'' = Segments [''Z'', ''name'']"
  "ref_below ''a.b'' = Invalid_path"
  by (simp_all add: ref_below_def forbidden_char_def)


section \<open>Status transitions\<close>

text \<open>
  C3, as stated, fails: the id is spliced into the store path, so the id \<^verbatim>\<open>"A/"\<close>, which is
  the id of no entry in waiting or serving, addresses the entry \<^verbatim>\<open>A\<close>, and the call
  succeeds, archives that entry and counts a completion.
\<close>

theorem updateQueueStatus_not_found_counterexample:
  "map_of (waiting two_waiting) ''A/'' = None \<and> map_of (serving two_waiting) ''A/'' = None
   \<and> updateQueueStatus ''A/'' ''completed'' 240000 ''2024-01-01'' two_waiting
     = Some (Inr (),
         two_waiting
           \<lparr>waiting := [(''B'', bob)],
            archived := [(''A'', alice\<lparr>status := Some ''completed'', completedAt := Some 240000,
                                       waitTime := Some 0\<rparr>)],
            daily := [(''2024-01-01'',
                       \<lparr>totalServed = 1, totalPeople = 2, totalWaitTime = Some 0,
                        avgWaitTime = Some 0, lastUpdated = Some 240000\<rparr>)],
            monthly := [(''2024-01'',
                         \<lparr>totalServed = 1, totalPeople = 2, totalWaitTime = Some 0,
                          avgWaitTime = Some 0, lastUpdated = None\<rparr>)]\<rparr>)"
  by (simp add: updateQueueStatus_def locate_def example_paths two_waiting_def empty_store_def
      alice_def bob_def compute_waitTime_def Math_round_div_def remove_from_def
      updateDailyStats_def bump_stats_def Let_def)

text \<open>
  C3, amended. \<open>updateQueueStatus\<close> fails with \<open>InvalidTransitionError\<close> whenever the status
  is not one of serving, completed, skipped. For a status that is one of them, the id is
  spliced into the store path: the call fails with the store's \<open>InvalidPathError\<close> when the
  id has a character the store forbids, and with \<open>NotFoundError\<close> whenever the path addresses
  nothing in waiting and nothing in serving; for an id that is a key, that is whenever no
  entry with that id is in either partition. Whenever the call fails, the store (waiting,
  serving, archived, statistics) is returned as it was.
\<close>

theorem updateQueueStatus_failures:
  "(newStatus \<notin> {''serving'', ''completed'', ''skipped''} \<longrightarrow>
      updateQueueStatus queueId newStatus now today s = Some (Inl InvalidTransitionError, s))
   \<and> (newStatus \<in> {''serving'', ''completed'', ''skipped''}
        \<and> ref_below queueId = Invalid_path \<longrightarrow>
      updateQueueStatus queueId newStatus now today s = Some (Inl InvalidPathError, s))
   \<and> (newStatus \<in> {''serving'', ''completed'', ''skipped''}
        \<and> ref_below queueId = Segments path
        \<and> get_below path (waiting s) = Missing \<and> get_below path (serving s) = Missing \<longrightarrow>
      updateQueueStatus queueId newStatus now today s = Some (Inl NotFoundError, s))
   \<and> (newStatus \<in> {''serving'', ''completed'', ''skipped''} \<and> plain_key queueId
        \<and> map_of (waiting s) queueId = None \<and> map_of (serving s) queueId = None \<longrightarrow>
      updateQueueStatus queueId newStatus now today s = Some (Inl NotFoundError, s))
   \<and> (updateQueueStatus queueId newStatus now today s = Some (Inl err, s') \<longrightarrow> s' = s)"
proof (intro conjI impI)
  assume "newStatus \<notin> {''serving'', ''completed'', ''skipped''}"
  then show "updateQueueStatus queueId newStatus now today s = Some (Inl InvalidTransitionError, s)"
    by (simp add: updateQueueStatus_def)
next
  assume a: "newStatus \<in> {''serving'', ''completed'', ''skipped''}
        \<and> ref_below queueId = Invalid_path"
  then have "locate queueId s = Bad_path"
    by (simp add: locate_Bad_path)
  with a show "updateQueueStatus queueId newStatus now today s = Some (Inl InvalidPathError, s)"
    by (auto simp: updateQueueStatus_def)
next
  assume a: "newStatus \<in> {''serving'', ''completed'', ''skipped''}
        \<and> ref_below queueId = Segments path
        \<and> get_below path (waiting s) = Missing \<and> get_below path (serving s) = Missing"
  then have "locate queueId s = Not_found"
    by (auto simp: locate_Not_found)
  with a show "updateQueueStatus queueId newStatus now today s = Some (Inl NotFoundError, s)"
    by (auto simp: updateQueueStatus_def)
next
  assume a: "newStatus \<in> {''serving'', ''completed'', ''skipped''} \<and> plain_key queueId
        \<and> map_of (waiting s) queueId = None \<and> map_of (serving s) queueId = None"
  then have "ref_below queueId = Segments [queueId]"
    by (simp add: ref_below_plain_key)
  with a have "locate queueId s = Not_found"
    by (simp add: locate_key)
  with a show "updateQueueStatus queueId newStatus now today s = Some (Inl NotFoundError, s)"
    by (auto simp: updateQueueStatus_def)
next
  assume "updateQueueStatus queueId newStatus now today s = Some (Inl err, s')"
  then show "s' = s"
    by (auto simp: updateQueueStatus_def Let_def split: if_splits located.splits)
qed

theorem updateQueueStatus_failures_witness:
  "updateQueueStatus ''A'' ''done'' 240000 ''2024-01-01'' two_waiting
     = Some (Inl InvalidTransitionError, two_waiting)
   \<and> updateQueueStatus ''a.b'' ''completed'' 240000 ''2024-01-01'' two_waiting
     = Some (Inl InvalidPathError, two_waiting)
   \<and> updateQueueStatus ''Z/name'' ''completed'' 240000 ''2024-01-01'' two_waiting
     = Some (Inl NotFoundError, two_waiting)
   \<and> updateQueueStatus ''Z'' ''completed'' 240000 ''2024-01-01'' two_waiting
     = Some (Inl NotFoundError, two_waiting)"
proof -
  have h1: "''done'' \<notin> {''serving'', ''completed'', ''skipped''}"
    by simp
  have h2: "''completed'' \<in> {''serving'', ''completed'', ''skipped''}
      \<and> ref_below ''a.b'' = Invalid_path"
    by (simp add: example_paths)
  have h3: "''completed'' \<in> {''serving'', ''completed'', ''skipped''}
      \<and> ref_below ''Z/name'' = Segments [''Z'', ''name'']
      \<and> get_below [''Z'', ''name''] (waiting two_waiting) = Missing
      \<and> get_below [''Z'', ''name''] (serving two_waiting) = Missing"
    by (simp add: example_paths two_waiting_def empty_store_def)
  have h4: "''completed'' \<in> {''serving'', ''completed'', ''skipped''} \<and> plain_key ''Z''
      \<and> map_of (waiting two_waiting) ''Z'' = None \<and> map_of (serving two_waiting) ''Z'' = None"
    by (simp add: plain_key_def forbidden_char_def two_waiting_def empty_store_def)
  from h1 updateQueueStatus_failures [of "''done''" "''A''" 240000 "''2024-01-01''" two_waiting]
  have a: "updateQueueStatus ''A'' ''done'' 240000 ''2024-01-01'' two_waiting
     = Some (Inl InvalidTransitionError, two_waiting)"
    by blast
  from h2 updateQueueStatus_failures [of "''completed''" "''a.b''" 240000 "''2024-01-01''" two_waiting]
  have b: "updateQueueStatus ''a.b'' ''completed'' 240000 ''2024-01-01'' two_waiting
     = Some (Inl InvalidPathError, two_waiting)"
    by blast
  from h3 updateQueueStatus_failures [of "''completed''" "''Z/name''" 240000 "''2024-01-01''"
      two_waiting "[''Z'', ''name'']"]
  have c: "updateQueueStatus ''Z/name'' ''completed'' 240000 ''2024-01-01'' two_waiting
     = Some (Inl NotFoundError, two_waiting)"
    by blast
  from h4 updateQueueStatus_failures [of "''completed''" "''Z''" 240000 "''2024-01-01''" two_waiting]
  have d: "updateQueueStatus ''Z'' ''completed'' 240000 ''2024-01-01'' two_waiting
     = Some (Inl NotFoundError, two_waiting)"
    by blast
  from a b c d show ?thesis
    by blast
qed

text \<open>
  C10. \<open>updateQueueStatus id "serving"\<close> on an entry that is in the serving partition (and
  not in the waiting one) succeeds and returns the store unchanged: every partition, every
  field of the entry and the statistics are as before. The entry is the one the id
  addresses: for an id that is a key, the entry with that key.
\<close>

theorem updateQueueStatus_serving_noop:
  assumes "ref_below queueId = Segments [k]"
    and "map_of (waiting s) k = None" and "map_of (serving s) k = Some e"
  shows "updateQueueStatus queueId ''serving'' now today s = Some (Inr (), s)"
proof -
  from assms have "locate queueId s = Found k e Serving"
    by (simp add: locate_Found_Serving)
  then show ?thesis
    by (simp add: updateQueueStatus_def)
qed

theorem updateQueueStatus_serving_noop_witness:
  "updateQueueStatus ''A'' ''serving'' 240000 ''2024-01-01'' one_serving = Some (Inr (), one_serving)"
proof -
  have h0: "ref_below ''A'' = Segments [''A'']"
    by (simp add: example_paths)
  have h1: "map_of (waiting one_serving) ''A'' = None"
    by (simp add: one_serving_def empty_store_def)
  have h2: "map_of (serving one_serving) ''A'' = Some alice_serving"
    by (simp add: one_serving_def empty_store_def)
  show ?thesis
    by (rule updateQueueStatus_serving_noop [OF h0 h1 h2])
qed

lemma updateQueueStatus_archive:
  assumes "locate queueId s = Found k e loc"
    and "newStatus = ''completed'' \<or> newStatus = ''skipped''"
  shows "updateQueueStatus queueId newStatus now today s =
     Some (Inr (),
       updateDailyStats newStatus (if partySize e = 0 then 1 else partySize e)
         (compute_waitTime e) now today
         ((remove_from loc k s)\<lparr>archived :=
             AList.update k
               (e\<lparr>status := Some newStatus, completedAt := Some now,
                   waitTime := Some (compute_waitTime e)\<rparr>)
               (archived (remove_from loc k s))\<rparr>))"
  using assms by (auto simp: updateQueueStatus_def Let_def)

lemma serving_transition:
  assumes "locate queueId s = Found k e Waiting"
  shows "updateQueueStatus queueId ''serving'' now today s =
    Some (Inr (), s\<lparr>waiting := AList.delete k (waiting s),
               serving := AList.update k (e\<lparr>servedAt := Some now, updatedAt := now\<rparr>)
                            (serving s)\<rparr>)"
  using assms by (simp add: updateQueueStatus_def)

section \<open>Statistics\<close>

lemma daily_remove_from [simp]: "daily (remove_from loc queueId s) = daily s"
  by (cases loc) (simp_all add: remove_from_def)

lemma archived_updateDailyStats [simp]:
  "archived (updateDailyStats st p w now today s) = archived s"
  by (simp add: updateDailyStats_def Let_def)

lemma getDailyStats_updateDailyStats_completed:
  "getDailyStats today n (updateDailyStats ''completed'' p w now today s)
     = (bump_stats p w
          (case map_of (daily s) today of
             Some st \<Rightarrow> st
           | None \<Rightarrow> \<lparr>totalServed = 0, totalPeople = 0, totalWaitTime = Some 0,
                      avgWaitTime = None, lastUpdated = Some now\<rparr>))\<lparr>lastUpdated := Some now\<rparr>"
  by (simp add: getDailyStats_def updateDailyStats_def Let_def update_conv')

lemma getDailyStats_updateDailyStats_other:
  "status' \<noteq> ''completed'' \<Longrightarrow>
   getDailyStats today n (updateDailyStats status' p w now today s)
     = (case map_of (daily s) today of
          Some st \<Rightarrow> st
        | None \<Rightarrow> \<lparr>totalServed = 0, totalPeople = 0, totalWaitTime = Some 0,
                   avgWaitTime = None, lastUpdated = Some now\<rparr>)\<lparr>lastUpdated := Some now\<rparr>"
  by (simp add: getDailyStats_def updateDailyStats_def Let_def update_conv')

text \<open>
  C2. For an entry found in waiting or serving, with a party size of at least 1 as every
  joined entry has: \<open>updateQueueStatus id "completed"\<close> succeeds, and after it the daily
  statistics of the day report \<open>totalServed\<close> one higher and \<open>totalPeople\<close> higher by the
  entry's \<open>partySize\<close> than before the call; \<open>updateQueueStatus id "skipped"\<close> succeeds, and
  after it both are what they were.
\<close>

theorem advance_daily_stats:
  assumes "locate queueId s = Found k e loc" and "1 \<le> partySize e"
  shows "\<exists>s1 s2.
      updateQueueStatus queueId ''completed'' now today s = Some (Inr (), s1)
    \<and> updateQueueStatus queueId ''skipped'' now today s = Some (Inr (), s2)
    \<and> totalServed (getDailyStats today n' s1) = totalServed (getDailyStats today n s) + 1
    \<and> totalPeople (getDailyStats today n' s1) = totalPeople (getDailyStats today n s) + partySize e
    \<and> totalServed (getDailyStats today n' s2) = totalServed (getDailyStats today n s)
    \<and> totalPeople (getDailyStats today n' s2) = totalPeople (getDailyStats today n s)"
proof -
  define archived_in where "archived_in st =
     (remove_from loc k s)\<lparr>archived :=
        AList.update k
          (e\<lparr>status := Some st, completedAt := Some now, waitTime := Some (compute_waitTime e)\<rparr>)
          (archived (remove_from loc k s))\<rparr>" for st
  define s1 where "s1 = updateDailyStats ''completed'' (partySize e) (compute_waitTime e)
     now today (archived_in ''completed'')"
  define s2 where "s2 = updateDailyStats ''skipped'' (partySize e) (compute_waitTime e)
     now today (archived_in ''skipped'')"
  from assms(2) have p: "(if partySize e = 0 then 1 else partySize e) = partySize e"
    by simp
  have r1: "updateQueueStatus queueId ''completed'' now today s = Some (Inr (), s1)"
    using updateQueueStatus_archive [OF assms(1), of "''completed''" now today]
    by (simp add: s1_def archived_in_def p)
  have r2: "updateQueueStatus queueId ''skipped'' now today s = Some (Inr (), s2)"
    using updateQueueStatus_archive [OF assms(1), of "''skipped''" now today]
    by (simp add: s2_def archived_in_def p)
  have d: "daily (archived_in st) = daily s" for st
    by (simp add: archived_in_def)
  have c: "totalServed (getDailyStats today n' s1) = totalServed (getDailyStats today n s) + 1
    \<and> totalPeople (getDailyStats today n' s1) = totalPeople (getDailyStats today n s) + partySize e"
    unfolding s1_def getDailyStats_updateDailyStats_completed d
    by (simp add: getDailyStats_def bump_stats_def Let_def split: option.splits)
  have k: "totalServed (getDailyStats today n' s2) = totalServed (getDailyStats today n s)
    \<and> totalPeople (getDailyStats today n' s2) = totalPeople (getDailyStats today n s)"
    unfolding s2_def getDailyStats_updateDailyStats_other [of "''skipped''", simplified] d
    by (simp add: getDailyStats_def split: option.splits)
  from r1 r2 c k show ?thesis
    by blast
qed

theorem advance_daily_stats_witness:
  "\<exists>s1 s2.
      updateQueueStatus ''A'' ''completed'' 240000 ''2024-01-01'' one_serving = Some (Inr (), s1)
    \<and> updateQueueStatus ''A'' ''skipped'' 240000 ''2024-01-01'' one_serving = Some (Inr (), s2)
    \<and> totalServed (getDailyStats ''2024-01-01'' 250000 s1) = 1
    \<and> totalPeople (getDailyStats ''2024-01-01'' 250000 s1) = 2
    \<and> totalServed (getDailyStats ''2024-01-01'' 250000 s2) = 0
    \<and> totalPeople (getDailyStats ''2024-01-01'' 250000 s2) = 0"
proof -
  have h1: "locate ''A'' one_serving = Found ''A'' alice_serving Serving"
    by (simp add: locate_def example_paths one_serving_def empty_store_def)
  have h2: "1 \<le> partySize alice_serving"
    by (simp add: alice_serving_def alice_def)
  have before: "totalServed (getDailyStats ''2024-01-01'' 230000 one_serving) = 0"
    "totalPeople (getDailyStats ''2024-01-01'' 230000 one_serving) = 0"
    "partySize alice_serving = 2"
    by (simp_all add: getDailyStats_def one_serving_def empty_store_def alice_serving_def alice_def)
  from advance_daily_stats [OF h1 h2, of 240000 "''2024-01-01''" 250000 230000]
  show ?thesis
    unfolding before by simp
qed


section \<open>Wait time of archived entries\<close>

lemma Math_round_div_round:
  assumes "0 < b"
  shows "Math_round_div a b = round (real_of_int a / real_of_int b)"
proof -
  from assms have "real_of_int a / real_of_int b + 1 / 2
      = real_of_int (2 * a + b) / real_of_int (2 * b)"
    by (simp add: field_simps)
  then have "round (real_of_int a / real_of_int b)
      = \<lfloor>real_of_int (2 * a + b) / real_of_int (2 * b)\<rfloor>"
    by (simp add: round_def)
  also have "\<dots> = (2 * a + b) div (2 * b)"
    by (rule floor_divide_of_int_eq)
  finally show ?thesis
    by (simp add: Math_round_div_def)
qed

lemma compute_waitTime_round:
  "compute_waitTime e =
     (case servedAt e of
        Some sa \<Rightarrow>
          if createdAt e \<noteq> 0 \<and> sa \<noteq> 0
          then round (real_of_int (sa - createdAt e) / 60000) else 0
      | None \<Rightarrow> 0)"
  using Math_round_div_round [of 60000]
  by (simp add: compute_waitTime_def split: option.splits)

text \<open>
  C7, as stated, fails: the transition to skipped records a wait time as the transition to
  completed does (here 2 minutes for an entry created at 60000 and served at 180000), and
  an entry completed straight from the waiting partition has no \<open>servedAt\<close> and records
  the wait time 0.
\<close>

theorem waitTime_only_on_completed_counterexample:
  "updateQueueStatus ''A'' ''skipped'' 240000 ''2024-01-01'' one_serving
     = Some (Inr (),
         one_serving
           \<lparr>serving := [],
            archived := [(''A'', alice_serving\<lparr>status := Some ''skipped'',
                                 completedAt := Some 240000, waitTime := Some 2\<rparr>)],
            daily := [(''2024-01-01'',
                       \<lparr>totalServed = 0, totalPeople = 0, totalWaitTime = Some 0,
                        avgWaitTime = None, lastUpdated = Some 240000\<rparr>)]\<rparr>)
   \<and> updateQueueStatus ''B'' ''completed'' 240000 ''2024-01-01'' one_serving
     = Some (Inr (),
         one_serving
           \<lparr>waiting := [],
            archived := [(''B'', bob\<lparr>status := Some ''completed'', completedAt := Some 240000,
                                     waitTime := Some 0\<rparr>)],
            daily := [(''2024-01-01'',
                       \<lparr>totalServed = 1, totalPeople = 1, totalWaitTime = Some 0,
                        avgWaitTime = Some 0, lastUpdated = Some 240000\<rparr>)],
            monthly := [(''2024-01'',
                         \<lparr>totalServed = 1, totalPeople = 1, totalWaitTime = Some 0,
                          avgWaitTime = Some 0, lastUpdated = None\<rparr>)]\<rparr>)
   \<and> servedAt bob = None"
  by (simp add: updateQueueStatus_def locate_def example_paths one_serving_def empty_store_def
      alice_serving_def alice_def bob_def compute_waitTime_def Math_round_div_def
      remove_from_def updateDailyStats_def bump_stats_def Let_def)

text \<open>
  C7, amended. Every entry that \<open>updateQueueStatus\<close> archives, as completed or as skipped,
  is the entry found with \<open>status\<close>, \<open>completedAt\<close> and \<open>waitTime\<close> set, where \<open>waitTime\<close> is
  \<open>round ((servedAt - createdAt) / 60000)\<close> when the entry has a \<open>servedAt\<close> and both
  timestamps are non-zero, and 0 otherwise. The transition to serving sets \<open>servedAt\<close> and
  \<open>updatedAt\<close> only, so it records no wait time.
\<close>

theorem archived_waitTime:
  "(locate queueId s = Found k e loc \<and> (newStatus = ''completed'' \<or> newStatus = ''skipped'') \<longrightarrow>
      (\<exists>s'. updateQueueStatus queueId newStatus now today s = Some (Inr (), s')
         \<and> map_of (archived s') k
           = Some (e\<lparr>status := Some newStatus, completedAt := Some now,
                     waitTime := Some
                       (case servedAt e of
                          Some sa \<Rightarrow>
                            if createdAt e \<noteq> 0 \<and> sa \<noteq> 0
                            then round (real_of_int (sa - createdAt e) / 60000) else 0
                        | None \<Rightarrow> 0)\<rparr>)))
   \<and> (locate queueId s = Found k e Waiting \<longrightarrow>
      (\<exists>s'. updateQueueStatus queueId ''serving'' now today s = Some (Inr (), s')
         \<and> map_of (serving s') k = Some (e\<lparr>servedAt := Some now, updatedAt := now\<rparr>)))"
proof (intro conjI impI)
  assume a: "locate queueId s = Found k e loc \<and> (newStatus = ''completed'' \<or> newStatus = ''skipped'')"
  then have l: "locate queueId s = Found k e loc"
    and st: "newStatus = ''completed'' \<or> newStatus = ''skipped''"
    by simp_all
  show "\<exists>s'. updateQueueStatus queueId newStatus now today s = Some (Inr (), s')
         \<and> map_of (archived s') k
           = Some (e\<lparr>status := Some newStatus, completedAt := Some now,
                     waitTime := Some
                       (case servedAt e of
                          Some sa \<Rightarrow>
                            if createdAt e \<noteq> 0 \<and> sa \<noteq> 0
                            then round (real_of_int (sa - createdAt e) / 60000) else 0
                        | None \<Rightarrow> 0)\<rparr>)"
    unfolding updateQueueStatus_archive [OF l st]
    by (simp add: update_conv' compute_waitTime_round)
next
  assume "locate queueId s = Found k e Waiting"
  then show "\<exists>s'. updateQueueStatus queueId ''serving'' now today s = Some (Inr (), s')
         \<and> map_of (serving s') k = Some (e\<lparr>servedAt := Some now, updatedAt := now\<rparr>)"
    by (simp add: serving_transition update_conv')
qed

theorem archived_waitTime_witness:
  "(\<exists>s'. updateQueueStatus ''A'' ''completed'' 240000 ''2024-01-01'' one_serving = Some (Inr (), s')
      \<and> map_of (archived s') ''A''
        = Some (alice_serving\<lparr>status := Some ''completed'', completedAt := Some 240000,
                               waitTime := Some 2\<rparr>))
   \<and> (\<exists>s'. updateQueueStatus ''A'' ''serving'' 180000 ''2024-01-01'' two_waiting = Some (Inr (), s')
      \<and> map_of (serving s') ''A'' = Some (alice\<lparr>servedAt := Some 180000, updatedAt := 180000\<rparr>))"
proof -
  have h1: "locate ''A'' one_serving = Found ''A'' alice_serving Serving
      \<and> (''completed'' = ''completed'' \<or> ''completed'' = ''skipped'')"
    by (simp add: locate_def example_paths one_serving_def empty_store_def)
  have h2: "locate ''A'' two_waiting = Found ''A'' alice Waiting"
    by (simp add: locate_def example_paths two_waiting_def empty_store_def)
  have w: "(case servedAt alice_serving of
              Some sa \<Rightarrow>
                if createdAt alice_serving \<noteq> 0 \<and> sa \<noteq> 0
                then round (real_of_int (sa - createdAt alice_serving) / 60000) else 0
            | None \<Rightarrow> 0) = 2"
    by (simp add: alice_serving_def alice_def)
  from h1 archived_waitTime [of "''A''" one_serving "''A''" alice_serving Serving "''completed''"
      240000 "''2024-01-01''"]
  have a: "\<exists>s'. updateQueueStatus ''A'' ''completed'' 240000 ''2024-01-01'' one_serving = Some (Inr (), s')
      \<and> map_of (archived s') ''A''
        = Some (alice_serving\<lparr>status := Some ''completed'', completedAt := Some 240000,
                               waitTime := Some 2\<rparr>)"
    unfolding w by blast
  from h2 archived_waitTime [of "''A''" two_waiting "''A''" alice Waiting "''serving''"
      180000 "''2024-01-01''"]
  have b: "\<exists>s'. updateQueueStatus ''A'' ''serving'' 180000 ''2024-01-01'' two_waiting = Some (Inr (), s')
      \<and> map_of (serving s') ''A'' = Some (alice\<lparr>servedAt := Some 180000, updatedAt := 180000\<rparr>)"
    by blast
  from a b show ?thesis
    by blast
qed


section \<open>Reordering\<close>

lemma reorderQueues_found:
  assumes "ref_below a = Segments [ka]" and "ref_below b = Segments [kb]"
    and "map_of (waiting s) ka = Some ea" and "map_of (waiting s) kb = Some eb"
  shows "reorderQueues a b s =
    Some (Inr (), s\<lparr>waiting :=
       AList.map_entry kb (\<lambda>e. e\<lparr>position := position ea\<rparr>)
         (AList.map_entry ka (\<lambda>e. e\<lparr>position := position eb\<rparr>) (waiting s))\<rparr>)"
  using assms by (simp add: reorderQueues_def)

lemma reorderQueues_missing:
  assumes "ref_below a = Segments pa" and "ref_below b = Segments pb"
    and "get_below pa (waiting s) = Missing \<or> get_below pb (waiting s) = Missing"
  shows "reorderQueues a b s = Some (Inl NotFoundError, s)"
  using assms by (auto simp: reorderQueues_def)

lemma swap_lookup:
  assumes "map_of w a = Some ea" and "map_of w b = Some eb"
  defines "w' \<equiv> AList.map_entry b (\<lambda>e. e\<lparr>position := position ea\<rparr>)
         (AList.map_entry a (\<lambda>e. e\<lparr>position := position eb\<rparr>) w)"
  shows "map_of w' a = Some (ea\<lparr>position := position eb\<rparr>)"
    and "map_of w' b = Some (eb\<lparr>position := position ea\<rparr>)"
    and "k \<noteq> a \<Longrightarrow> k \<noteq> b \<Longrightarrow> map_of w' k = map_of w k"
  using assms(1,2) unfolding w'_def
  by (auto simp: map_of_map_entry)

lemma swap_twice:
  assumes "map_of w a = Some ea" and "map_of w b = Some eb"
  shows "AList.map_entry b (\<lambda>e. e\<lparr>position := position eb\<rparr>)
           (AList.map_entry a (\<lambda>e. e\<lparr>position := position ea\<rparr>)
             (AList.map_entry b (\<lambda>e. e\<lparr>position := position ea\<rparr>)
               (AList.map_entry a (\<lambda>e. e\<lparr>position := position eb\<rparr>) w))) = w"
proof (cases "a = b")
  case True
  with assms have "ea = eb" by simp
  with True assms show ?thesis
    by (simp add: map_entry_twice map_entry_id)
next
  case False
  have "AList.map_entry b (\<lambda>e. e\<lparr>position := position eb\<rparr>)
           (AList.map_entry a (\<lambda>e. e\<lparr>position := position ea\<rparr>)
             (AList.map_entry b (\<lambda>e. e\<lparr>position := position ea\<rparr>)
               (AList.map_entry a (\<lambda>e. e\<lparr>position := position eb\<rparr>) w)))
      = AList.map_entry b (\<lambda>e. e\<lparr>position := position eb\<rparr>)
           (AList.map_entry b (\<lambda>e. e\<lparr>position := position ea\<rparr>)
             (AList.map_entry a (\<lambda>e. e\<lparr>position := position ea\<rparr>)
               (AList.map_entry a (\<lambda>e. e\<lparr>position := position eb\<rparr>) w)))"
    using False by (simp add: map_entry_commute)
  also have "\<dots> = AList.map_entry b (\<lambda>e. e\<lparr>position := position eb\<rparr>)
                     (AList.map_entry a (\<lambda>e. e\<lparr>position := position ea\<rparr>) w)"
    by (simp add: map_entry_twice)
  also have "\<dots> = AList.map_entry b (\<lambda>e. e\<lparr>position := position eb\<rparr>) w"
    using assms(1) by (simp add: map_entry_id)
  also have "\<dots> = w"
    using assms(2) by (simp add: map_entry_id)
  finally show ?thesis .
qed

text \<open>
  C4, as stated, fails: the ids are spliced into the store path, so \<^verbatim>\<open>"A/"\<close> and \<^verbatim>\<open>"B/"\<close>,
  which are the ids of no entries in the waiting partition, address the entries \<^verbatim>\<open>A\<close> and
  \<^verbatim>\<open>B\<close>, and the call swaps their positions instead of failing with \<open>NotFoundError\<close>.
\<close>

theorem reorderQueues_not_found_counterexample:
  "map_of (waiting two_waiting) ''A/'' = None \<and> map_of (waiting two_waiting) ''B/'' = None
   \<and> reorderQueues ''A/'' ''B/'' two_waiting
     = Some (Inr (),
         two_waiting\<lparr>waiting := [(''A'', alice\<lparr>position := 2\<rparr>), (''B'', bob\<lparr>position := 1\<rparr>)]\<rparr>)"
  by (simp add: reorderQueues_def example_paths two_waiting_def empty_store_def alice_def bob_def)

text \<open>
  C4, amended. For ids that address entries \<open>a\<close> and \<open>b\<close> of the waiting partition (for ids
  that are keys: the entries with these ids), \<open>reorderQueues\<close> succeeds; after it \<open>a\<close> has
  the position \<open>b\<close> had and \<open>b\<close> the position \<open>a\<close> had, every other field of the two and
  every other waiting entry is as before, the order of the keys is as before, and nothing
  but the waiting partition is written; a second \<open>reorderQueues\<close> with the same ids gives
  back the original store. The call fails with \<open>NotFoundError\<close> when the path of either id
  addresses nothing in the waiting partition (for ids that are keys: when either entry is
  not in the waiting partition), and with the store's \<open>InvalidPathError\<close> when either id has
  a character the store forbids; in both cases the store is unchanged.
\<close>

theorem reorderQueues_swaps:
  "(ref_below a = Segments [ka] \<and> ref_below b = Segments [kb]
      \<and> map_of (waiting s) ka = Some ea \<and> map_of (waiting s) kb = Some eb \<longrightarrow>
      (\<exists>s'. reorderQueues a b s = Some (Inr (), s')
         \<and> s' = s\<lparr>waiting := waiting s'\<rparr>
         \<and> map_of (waiting s') ka = Some (ea\<lparr>position := position eb\<rparr>)
         \<and> map_of (waiting s') kb = Some (eb\<lparr>position := position ea\<rparr>)
         \<and> (\<forall>k. k \<noteq> ka \<and> k \<noteq> kb \<longrightarrow> map_of (waiting s') k = map_of (waiting s) k)
         \<and> map fst (waiting s') = map fst (waiting s)
         \<and> reorderQueues a b s' = Some (Inr (), s)))
   \<and> (ref_below a = Segments pa \<and> ref_below b = Segments pb
        \<and> (get_below pa (waiting s) = Missing \<or> get_below pb (waiting s) = Missing) \<longrightarrow>
      reorderQueues a b s = Some (Inl NotFoundError, s))
   \<and> (plain_key a \<and> plain_key b
        \<and> (map_of (waiting s) a = None \<or> map_of (waiting s) b = None) \<longrightarrow>
      reorderQueues a b s = Some (Inl NotFoundError, s))
   \<and> (ref_below a = Invalid_path \<or> ref_below b = Invalid_path \<longrightarrow>
      reorderQueues a b s = Some (Inl InvalidPathError, s))"
proof (intro conjI impI)
  assume "ref_below a = Invalid_path \<or> ref_below b = Invalid_path"
  then show "reorderQueues a b s = Some (Inl InvalidPathError, s)"
    by (auto simp: reorderQueues_def split: ref_result.splits)
next
  assume "ref_below a = Segments pa \<and> ref_below b = Segments pb
        \<and> (get_below pa (waiting s) = Missing \<or> get_below pb (waiting s) = Missing)"
  then show "reorderQueues a b s = Some (Inl NotFoundError, s)"
    by (simp add: reorderQueues_missing)
next
  assume h: "plain_key a \<and> plain_key b
        \<and> (map_of (waiting s) a = None \<or> map_of (waiting s) b = None)"
  then have "ref_below a = Segments [a]" "ref_below b = Segments [b]"
    by (simp_all add: ref_below_plain_key)
  moreover from h have "get_below [a] (waiting s) = Missing \<or> get_below [b] (waiting s) = Missing"
    by auto
  ultimately show "reorderQueues a b s = Some (Inl NotFoundError, s)"
    by (rule reorderQueues_missing)
next
  assume h: "ref_below a = Segments [ka] \<and> ref_below b = Segments [kb]
      \<and> map_of (waiting s) ka = Some ea \<and> map_of (waiting s) kb = Some eb"
  then have pa: "ref_below a = Segments [ka]" and pb: "ref_below b = Segments [kb]"
    and la0: "map_of (waiting s) ka = Some ea" and lb0: "map_of (waiting s) kb = Some eb"
    by simp_all
  define w' where "w' = AList.map_entry kb (\<lambda>e. e\<lparr>position := position ea\<rparr>)
         (AList.map_entry ka (\<lambda>e. e\<lparr>position := position eb\<rparr>) (waiting s))"
  have r: "reorderQueues a b s = Some (Inr (), s\<lparr>waiting := w'\<rparr>)"
    by (simp add: reorderQueues_found [OF pa pb la0 lb0] w'_def)
  from la0 lb0 have la: "map_of w' ka = Some (ea\<lparr>position := position eb\<rparr>)"
    and lb: "map_of w' kb = Some (eb\<lparr>position := position ea\<rparr>)"
    and lk: "\<And>k. k \<noteq> ka \<Longrightarrow> k \<noteq> kb \<Longrightarrow> map_of w' k = map_of (waiting s) k"
    unfolding w'_def by (simp_all add: swap_lookup)
  have keys: "map fst w' = map fst (waiting s)"
    by (simp add: w'_def map_entry_keys)
  from la lb have "reorderQueues a b (s\<lparr>waiting := w'\<rparr>) =
      Some (Inr (), s\<lparr>waiting := AList.map_entry kb (\<lambda>e. e\<lparr>position := position eb\<rparr>)
           (AList.map_entry ka (\<lambda>e. e\<lparr>position := position ea\<rparr>) w')\<rparr>)"
    by (simp add: reorderQueues_found [OF pa pb])
  also have "AList.map_entry kb (\<lambda>e. e\<lparr>position := position eb\<rparr>)
           (AList.map_entry ka (\<lambda>e. e\<lparr>position := position ea\<rparr>) w') = waiting s"
    unfolding w'_def using la0 lb0 by (simp add: swap_twice)
  finally have twice: "reorderQueues a b (s\<lparr>waiting := w'\<rparr>) = Some (Inr (), s)"
    by simp
  have "reorderQueues a b s = Some (Inr (), s\<lparr>waiting := w'\<rparr>)
         \<and> s\<lparr>waiting := w'\<rparr> = s\<lparr>waiting := waiting (s\<lparr>waiting := w'\<rparr>)\<rparr>
         \<and> map_of (waiting (s\<lparr>waiting := w'\<rparr>)) ka = Some (ea\<lparr>position := position eb\<rparr>)
         \<and> map_of (waiting (s\<lparr>waiting := w'\<rparr>)) kb = Some (eb\<lparr>position := position ea\<rparr>)
         \<and> (\<forall>k. k \<noteq> ka \<and> k \<noteq> kb \<longrightarrow>
               map_of (waiting (s\<lparr>waiting := w'\<rparr>)) k = map_of (waiting s) k)
         \<and> map fst (waiting (s\<lparr>waiting := w'\<rparr>)) = map fst (waiting s)
         \<and> reorderQueues a b (s\<lparr>waiting := w'\<rparr>) = Some (Inr (), s)"
    using r la lb lk keys twice by simp
  then show "\<exists>s'. reorderQueues a b s = Some (Inr (), s')
         \<and> s' = s\<lparr>waiting := waiting s'\<rparr>
         \<and> map_of (waiting s') ka = Some (ea\<lparr>position := position eb\<rparr>)
         \<and> map_of (waiting s') kb = Some (eb\<lparr>position := position ea\<rparr>)
         \<and> (\<forall>k. k \<noteq> ka \<and> k \<noteq> kb \<longrightarrow> map_of (waiting s') k = map_of (waiting s) k)
         \<and> map fst (waiting s') = map fst (waiting s)
         \<and> reorderQueues a b s' = Some (Inr (), s)"
    by (rule exI)
qed

theorem reorderQueues_swaps_witness:
  "(\<exists>s'. reorderQueues ''A'' ''B'' two_waiting = Some (Inr (), s')
      \<and> map_of (waiting s') ''A'' = Some (alice\<lparr>position := 2\<rparr>)
      \<and> map_of (waiting s') ''B'' = Some (bob\<lparr>position := 1\<rparr>)
      \<and> reorderQueues ''A'' ''B'' s' = Some (Inr (), two_waiting))
   \<and> reorderQueues ''A'' ''Z/name'' two_waiting = Some (Inl NotFoundError, two_waiting)
   \<and> reorderQueues ''A'' ''Z'' two_waiting = Some (Inl NotFoundError, two_waiting)
   \<and> reorderQueues ''A'' ''a.b'' two_waiting = Some (Inl InvalidPathError, two_waiting)"
proof -
  have h1: "ref_below ''A'' = Segments [''A''] \<and> ref_below ''B'' = Segments [''B'']
      \<and> map_of (waiting two_waiting) ''A'' = Some alice \<and> map_of (waiting two_waiting) ''B'' = Some bob"
    by (simp add: example_paths two_waiting_def empty_store_def)
  have h2: "ref_below ''A'' = Segments [''A''] \<and> ref_below ''Z/name'' = Segments [''Z'', ''name'']
      \<and> (get_below [''A''] (waiting two_waiting) = Missing
          \<or> get_below [''Z'', ''name''] (waiting two_waiting) = Missing)"
    by (simp add: example_paths two_waiting_def empty_store_def)
  have h3: "plain_key ''A'' \<and> plain_key ''Z''
      \<and> (map_of (waiting two_waiting) ''A'' = None \<or> map_of (waiting two_waiting) ''Z'' = None)"
    by (simp add: plain_key_def forbidden_char_def two_waiting_def empty_store_def)
  have h4: "ref_below ''A'' = Invalid_path \<or> ref_below ''a.b'' = Invalid_path"
    by (simp add: example_paths)
  have p: "position alice = 1" "position bob = 2"
    by (simp_all add: alice_def bob_def)
  from h1 reorderQueues_swaps [of "''A''" "''A''" "''B''" "''B''" two_waiting alice bob]
  have a: "\<exists>s'. reorderQueues ''A'' ''B'' two_waiting = Some (Inr (), s')
      \<and> map_of (waiting s') ''A'' = Some (alice\<lparr>position := 2\<rparr>)
      \<and> map_of (waiting s') ''B'' = Some (bob\<lparr>position := 1\<rparr>)
      \<and> reorderQueues ''A'' ''B'' s' = Some (Inr (), two_waiting)"
    unfolding p by blast
  from h2 reorderQueues_swaps [of "''A''" "''A''" "''Z/name''" "''Z''" two_waiting alice bob
      "[''A'']" "[''Z'', ''name'']"]
  have b: "reorderQueues ''A'' ''Z/name'' two_waiting = Some (Inl NotFoundError, two_waiting)"
    by blast
  from h3 reorderQueues_swaps [of "''A''" "''A''" "''Z''" "''Z''" two_waiting alice bob]
  have c: "reorderQueues ''A'' ''Z'' two_waiting = Some (Inl NotFoundError, two_waiting)"
    by blast
  from h4 reorderQueues_swaps [of "''A''" "''A''" "''a.b''" "''Z''" two_waiting alice bob]
  have d: "reorderQueues ''A'' ''a.b'' two_waiting = Some (Inl InvalidPathError, two_waiting)"
    by blast
  from a b c d show ?thesis
    by blast
qed


section \<open>Joining\<close>

lemma getNextPosition_Max:
  "getNextPosition s =
     (if waiting s = [] then 1 else 1 + Max ((\<lambda>q. position (snd q)) ` set (waiting s)))"
proof (cases "waiting s")
  case Nil
  then show ?thesis by (simp add: getNextPosition_def)
next
  case (Cons q qs)
  have "fold max (map (\<lambda>q. position (snd q)) qs) (position (snd q))
      = Max (set (position (snd q) # map (\<lambda>q. position (snd q)) qs))"
    by (rule Max.set_eq_fold [symmetric])
  with Cons show ?thesis
    by (simp add: getNextPosition_def)
qed

lemma set_update_subset: "set (AList.update k v al) \<subseteq> insert (k, v) (set al)"
  by (induction al) auto

lemma update_mem: "(k, v) \<in> set (AList.update k v al)"
  by (induction al) auto

lemma joinQueue_valid:
  assumes "trim nm \<noteq> []" "trim ph \<noteq> []" "1 \<le> ps"
  shows "joinQueue nm ps ph k now s =
    (Inr k, s\<lparr>waiting := AList.update k
       \<lparr>name = trim nm, partySize = ps, phone = trim ph, position = getNextPosition s,
        createdAt = now, updatedAt = now, servedAt = None, status = None,
        completedAt = None, waitTime = None\<rparr> (waiting s)\<rparr>)"
  using assms by (simp add: joinQueue_def)

lemma positions_below_next:
  assumes "q \<in> set (waiting s)"
  shows "position (snd q) < getNextPosition s"
proof -
  from assms have ne: "waiting s \<noteq> []" by auto
  have "position (snd q) \<le> Max ((\<lambda>q. position (snd q)) ` set (waiting s))"
    using assms by (intro Max_ge) auto
  with ne show ?thesis
    by (simp add: getNextPosition_Max)
qed

lemma getNextPosition_update:
  assumes "position e = getNextPosition s"
  shows "getNextPosition (s\<lparr>waiting := AList.update k e (waiting s)\<rparr>) = getNextPosition s + 1"
proof -
  let ?w = "AList.update k e (waiting s)"
  have "Max ((\<lambda>q. position (snd q)) ` set ?w) = getNextPosition s"
  proof (rule Max_eqI)
    show "finite ((\<lambda>q. position (snd q)) ` set ?w)" by simp
  next
    fix y assume "y \<in> (\<lambda>q. position (snd q)) ` set ?w"
    then obtain q where q: "q \<in> set ?w" and y: "y = position (snd q)" by auto
    from q set_update_subset [of k e "waiting s"] have "q = (k, e) \<or> q \<in> set (waiting s)"
      by auto
    then show "y \<le> getNextPosition s"
    proof
      assume "q = (k, e)"
      with y assms show ?thesis by simp
    next
      assume "q \<in> set (waiting s)"
      from positions_below_next [OF this] y show ?thesis by simp
    qed
  next
    from update_mem [of k e "waiting s"] assms
    show "getNextPosition s \<in> (\<lambda>q. position (snd q)) ` set ?w"
      by (metis (mono_tags, lifting) image_eqI snd_conv)
  qed
  then show ?thesis
    by (simp add: getNextPosition_Max [of "s\<lparr>waiting := ?w\<rparr>"])
qed

lemma joinQueue_other_key:
  "k' \<noteq> k \<Longrightarrow> map_of (waiting (snd (joinQueue nm ps ph k now s))) k' = map_of (waiting s) k'"
  by (simp add: joinQueue_def Let_def update_conv')

lemma joinAll_other_key:
  "k' \<notin> jr_key ` set rs \<Longrightarrow> map_of (waiting (joinAll rs s)) k' = map_of (waiting s) k'"
proof (induction rs arbitrary: s)
  case Nil
  then show ?case by simp
next
  case (Cons r rs)
  then have "k' \<noteq> jr_key r" "k' \<notin> jr_key ` set rs" by auto
  with Cons.IH show ?case
    by (simp add: joinQueue_other_key)
qed

lemma joinAll_positions:
  assumes "\<forall>r\<in>set rs. valid_request r" and "distinct (map jr_key rs)" and "i < length rs"
  shows "map_option position (map_of (waiting (joinAll rs s)) (jr_key (rs ! i)))
           = Some (getNextPosition s + int i)"
  using assms
proof (induction rs arbitrary: s i)
  case Nil
  then show ?case by simp
next
  case (Cons r rs)
  from Cons.prems(1) have v: "trim (jr_name r) \<noteq> []" "trim (jr_phone r) \<noteq> []" "1 \<le> jr_partySize r"
    by (simp_all add: valid_request_def)
  define e where "e = \<lparr>name = trim (jr_name r), partySize = jr_partySize r, phone = trim (jr_phone r),
        position = getNextPosition s,
        createdAt = jr_now r, updatedAt = jr_now r, servedAt = None, status = None,
        completedAt = None, waitTime = None\<rparr>"
  define s' where "s' = s\<lparr>waiting := AList.update (jr_key r) e (waiting s)\<rparr>"
  have j: "snd (joinQueue (jr_name r) (jr_partySize r) (jr_phone r) (jr_key r) (jr_now r) s) = s'"
    by (simp add: joinQueue_valid [OF v] s'_def e_def)
  have n: "getNextPosition s' = getNextPosition s + 1"
    unfolding s'_def by (rule getNextPosition_update) (simp add: e_def)
  show ?case
  proof (cases i)
    case 0
    from Cons.prems(2) have "jr_key r \<notin> jr_key ` set rs" by simp
    then have "map_of (waiting (joinAll rs s')) (jr_key r) = map_of (waiting s') (jr_key r)"
      by (rule joinAll_other_key)
    also have "\<dots> = Some e"
      by (simp add: s'_def update_conv')
    finally show ?thesis
      using 0 by (simp add: j e_def)
  next
    case (Suc m)
    with Cons.prems have "\<forall>r\<in>set rs. valid_request r" "distinct (map jr_key rs)" "m < length rs"
      by simp_all
    from Cons.IH [OF this, of s'] n Suc show ?thesis
      by (auto simp: j)
  qed
qed

text \<open>
  C1. A join with acceptable input returns the pushed key and stores under it an entry whose
  position is 1 when the waiting partition is empty and otherwise 1 plus the maximum
  position of the waiting entries. Hence, for joins run one after the other from an empty
  waiting partition, each with acceptable input and its own key, the \<open>i\<close>-th join (from 0)
  has the position \<open>i + 1\<close>: the positions are \<open>1..N\<close> in join order.
\<close>

theorem joinQueue_positions:
  "(trim nm \<noteq> [] \<and> trim ph \<noteq> [] \<and> 1 \<le> ps \<longrightarrow>
      fst (joinQueue nm ps ph k now s) = Inr k
      \<and> map_option position (map_of (waiting (snd (joinQueue nm ps ph k now s))) k)
          = Some (if waiting s = [] then 1
                  else 1 + Max ((\<lambda>q. position (snd q)) ` set (waiting s))))
   \<and> (waiting s = [] \<and> (\<forall>r\<in>set rs. valid_request r) \<and> distinct (map jr_key rs) \<longrightarrow>
      (\<forall>i<length rs.
         map_option position (map_of (waiting (joinAll rs s)) (jr_key (rs ! i))) = Some (int i + 1)))"
proof (intro conjI impI allI)
  assume v: "trim nm \<noteq> [] \<and> trim ph \<noteq> [] \<and> 1 \<le> ps"
  then show "fst (joinQueue nm ps ph k now s) = Inr k"
    by (simp add: joinQueue_valid)
  from v show "map_option position (map_of (waiting (snd (joinQueue nm ps ph k now s))) k)
          = Some (if waiting s = [] then 1
                  else 1 + Max ((\<lambda>q. position (snd q)) ` set (waiting s)))"
    by (simp add: joinQueue_valid update_conv' getNextPosition_Max)
next
  fix i
  assume a: "waiting s = [] \<and> (\<forall>r\<in>set rs. valid_request r) \<and> distinct (map jr_key rs)"
    and i: "i < length rs"
  from a have "getNextPosition s = 1"
    by (simp add: getNextPosition_def)
  with a i joinAll_positions [of rs i s]
  show "map_option position (map_of (waiting (joinAll rs s)) (jr_key (rs ! i))) = Some (int i + 1)"
    by auto
qed

theorem joinQueue_positions_witness:
  "fst (joinQueue ''Carol'' 4 ''3333333333'' ''C'' 150000 two_waiting) = Inr ''C''
   \<and> map_option position
        (map_of (waiting (snd (joinQueue ''Carol'' 4 ''3333333333'' ''C'' 150000 two_waiting))) ''C'')
       = Some 3
   \<and> map_option position (map_of (waiting (joinAll three_requests empty_store)) ''A'') = Some 1
   \<and> map_option position (map_of (waiting (joinAll three_requests empty_store)) ''B'') = Some 2
   \<and> map_option position (map_of (waiting (joinAll three_requests empty_store)) ''C'') = Some 3"
proof -
  have sp: "\<not> is_space CHR ''C''" "\<not> is_space CHR ''l''" "\<not> is_space CHR ''3''"
    "\<not> is_space CHR ''A''" "\<not> is_space CHR ''e''" "\<not> is_space CHR ''1''"
    "\<not> is_space CHR ''B''" "\<not> is_space CHR ''b''" "\<not> is_space CHR ''2''"
    "is_space CHR '' ''"
    by (simp_all add: is_space_def)
  have h1: "trim ''Carol'' \<noteq> [] \<and> trim ''3333333333'' \<noteq> [] \<and> (1::int) \<le> 4"
    by (simp add: trim_def sp)
  have m: "(if waiting two_waiting = [] then 1
            else 1 + Max ((\<lambda>q. position (snd q)) ` set (waiting two_waiting))) = 3"
    by (simp add: two_waiting_def empty_store_def alice_def bob_def)
  have h2: "waiting empty_store = [] \<and> (\<forall>r\<in>set three_requests. valid_request r)
      \<and> distinct (map jr_key three_requests)"
    by (simp add: empty_store_def three_requests_def valid_request_def trim_def sp)
  have k: "jr_key (three_requests ! 0) = ''A''" "jr_key (three_requests ! 1) = ''B''"
    "jr_key (three_requests ! 2) = ''C''" "length three_requests = 3"
    by (simp_all add: three_requests_def)
  from h1 joinQueue_positions [of "''Carol''" "''3333333333''" 4 "''C''" 150000 two_waiting "[]"]
  have a: "fst (joinQueue ''Carol'' 4 ''3333333333'' ''C'' 150000 two_waiting) = Inr ''C''
   \<and> map_option position
        (map_of (waiting (snd (joinQueue ''Carol'' 4 ''3333333333'' ''C'' 150000 two_waiting))) ''C'')
       = Some 3"
    unfolding m by blast
  from h2 joinQueue_positions [of "''x''" "''y''" 1 "''k''" 0 empty_store three_requests]
  have all: "\<forall>i<length three_requests.
      map_option position (map_of (waiting (joinAll three_requests empty_store))
        (jr_key (three_requests ! i))) = Some (int i + 1)"
    by blast
  from all [rule_format, of 0] all [rule_format, of 1] all [rule_format, of 2]
  have b: "map_option position (map_of (waiting (joinAll three_requests empty_store)) ''A'') = Some 1
   \<and> map_option position (map_of (waiting (joinAll three_requests empty_store)) ''B'') = Some 2
   \<and> map_option position (map_of (waiting (joinAll three_requests empty_store)) ''C'') = Some 3"
    unfolding k by simp
  from a b show ?thesis
    by blast
qed


section \<open>Position in the queue\<close>
















section \<open>Search by phone\<close>

lemma phone_scan_find:
  "phone_scan clean xs = find (\<lambda>q. phone_matches clean (snd q)) xs"
  by (induction clean xs rule: phone_scan.induct) (simp_all add: phone_matches_def Let_def)

lemma digit_code: "is_digit c \<Longrightarrow> 48 \<le> (of_char c :: nat) \<and> (of_char c :: nat) \<le> 57"
  by (auto simp: is_digit_def)

lemma lower_char_cases:
  "lower_char c = c \<or> 97 \<le> (of_char (lower_char c) :: nat)"
proof (cases "lower_char c = c")
  case True
  then show ?thesis by simp
next
  case False
  then have r: "(65 \<le> (of_char c :: nat) \<and> (of_char c :: nat) \<le> 90)
      \<or> (192 \<le> (of_char c :: nat) \<and> (of_char c :: nat) \<le> 222 \<and> (of_char c :: nat) \<noteq> 215)"
    and l: "lower_char c = char_of ((of_char c :: nat) + 32)"
    by (auto simp: lower_char_def Let_def split: if_splits)
  from r have "((of_char c :: nat) + 32) mod 256 = of_char c + 32"
    by auto
  with l have "(of_char (lower_char c) :: nat) = of_char c + 32"
    by simp
  with r show ?thesis by auto
qed

lemma lower_char_digit: "is_digit c \<Longrightarrow> lower_char c = c"
  using digit_code [of c] by (auto simp: lower_char_def Let_def)

lemma lower_char_eq_digit:
  assumes "is_digit (lower_char c)"
  shows "lower_char c = c"
  using lower_char_cases [of c] digit_code [OF assms] by auto

lemma toLowerCase_digits: "list_all is_digit p \<Longrightarrow> toLowerCase p = p"
  by (induction p) (simp_all add: toLowerCase_def lower_char_digit)

lemma toLowerCase_eq_digits:
  "list_all is_digit (toLowerCase t) \<Longrightarrow> toLowerCase t = t"
  by (induction t) (auto simp: toLowerCase_def intro: lower_char_eq_digit)

lemma slice_last_toLowerCase: "slice_last n (toLowerCase t) = toLowerCase (slice_last n t)"
  by (simp add: slice_last_def toLowerCase_def drop_map)

lemma slice_last_digits: "list_all is_digit p \<Longrightarrow> list_all is_digit (slice_last n p)"
  by (auto simp: slice_last_def list_all_iff dest: in_set_dropD)

lemma phone_matches_digits:
  assumes "phone e \<noteq> []" and "list_all is_digit (phone e)"
  shows "phone_matches (toLowerCase t) e \<longleftrightarrow>
     phone e = t \<or> slice_last 7 (phone e) = slice_last 7 t"
proof -
  let ?p = "phone e"
  have n: "toLowerCase (trim ?p) = ?p"
    using assms by (simp add: digits_trim toLowerCase_digits)
  have a: "?p = toLowerCase t \<longleftrightarrow> ?p = t"
  proof
    assume h: "?p = toLowerCase t"
    with assms(2) have "list_all is_digit (toLowerCase t)" by simp
    then have "toLowerCase t = t" by (rule toLowerCase_eq_digits)
    with h show "?p = t" by simp
  next
    assume "?p = t"
    with assms(2) show "?p = toLowerCase t"
      by (simp add: toLowerCase_digits)
  qed
  have d: "list_all is_digit (slice_last 7 ?p)"
    using assms(2) by (rule slice_last_digits)
  have b: "slice_last 7 ?p = slice_last 7 (toLowerCase t) \<longleftrightarrow> slice_last 7 ?p = slice_last 7 t"
  proof
    assume h: "slice_last 7 ?p = slice_last 7 (toLowerCase t)"
    with d have "list_all is_digit (toLowerCase (slice_last 7 t))"
      by (simp add: slice_last_toLowerCase)
    then have "toLowerCase (slice_last 7 t) = slice_last 7 t"
      by (rule toLowerCase_eq_digits)
    with h show "slice_last 7 ?p = slice_last 7 t"
      by (simp add: slice_last_toLowerCase)
  next
    assume h: "slice_last 7 ?p = slice_last 7 t"
    with d have "toLowerCase (slice_last 7 t) = slice_last 7 t"
      by (simp add: toLowerCase_digits)
    with h show "slice_last 7 ?p = slice_last 7 (toLowerCase t)"
      by (simp add: slice_last_toLowerCase)
  qed
  from assms(1) a b show ?thesis
    by (simp add: phone_matches_def n)
qed

text \<open>
  C6, as stated, fails: a blank search term is rejected with \<open>ValidationError\<close>, not
  \<open>NotFoundError\<close>, although no entry matches it; and the comparison folds case, so the
  stored phone \<^verbatim>\<open>EXT1234\<close> is found by the term \<^verbatim>\<open>ext1234\<close>, which it neither equals
  nor agrees with on the last 7 characters.
\<close>

theorem searchQueueByPhone_counterexample:
  "searchQueueByPhone ''   '' two_waiting = Inl ValidationError
   \<and> waiting two_waiting = [(''A'', alice), (''B'', bob)] \<and> serving two_waiting = []
   \<and> \<not> spec_phone_match ''   '' alice \<and> \<not> spec_phone_match ''   '' bob
   \<and> searchQueueByPhone ''ext1234'' lettered
       = Inr \<lparr>sr_id = ''L'', sr_status = ''waiting'', sr_entry = alice\<lparr>phone := ''EXT1234''\<rparr>\<rparr>
   \<and> \<not> spec_phone_match ''ext1234'' (alice\<lparr>phone := ''EXT1234''\<rparr>)"
proof -
  have t1: "trim ''   '' = []"
    by (simp add: trim_def is_space_def)
  have t2: "trim ''ext1234'' = ''ext1234''"
    by (rule trim_no_space) (simp_all add: is_space_def)
  have t3: "trim ''EXT1234'' = ''EXT1234''"
    by (rule trim_no_space) (simp_all add: is_space_def)
  have l: "toLowerCase ''EXT1234'' = ''ext1234''" "toLowerCase ''ext1234'' = ''ext1234''"
    by code_simp+
  have a: "searchQueueByPhone ''   '' two_waiting = Inl ValidationError"
    by (simp add: searchQueueByPhone_def t1)
  have w: "waiting two_waiting = [(''A'', alice), (''B'', bob)] \<and> serving two_waiting = []"
    by (simp add: two_waiting_def empty_store_def)
  have b: "\<not> spec_phone_match ''   '' alice \<and> \<not> spec_phone_match ''   '' bob"
    by (simp add: spec_phone_match_def t1 alice_def bob_def slice_last_def)
  have c: "searchQueueByPhone ''ext1234'' lettered
       = Inr \<lparr>sr_id = ''L'', sr_status = ''waiting'', sr_entry = alice\<lparr>phone := ''EXT1234''\<rparr>\<rparr>"
    by (simp add: searchQueueByPhone_def t2 t3 l lettered_def empty_store_def alice_def
        found_in_def)
  have d: "\<not> spec_phone_match ''ext1234'' (alice\<lparr>phone := ''EXT1234''\<rparr>)"
    by (simp add: spec_phone_match_def t2 alice_def slice_last_def)
  from a w b c d show ?thesis
    by blast
qed

text \<open>
  C6, amended. \<open>searchQueueByPhone\<close> rejects a blank search term with \<open>ValidationError\<close>.
  Otherwise it trims and lower-cases the term and scans the waiting partition before the
  serving partition, returning the first entry that has a phone whose trimmed, lower-cased
  form equals the cleaned term or agrees with it on the last 7 characters, and failing with
  \<open>NotFoundError\<close> when no entry of waiting or serving matches. For a stored phone made of
  digits the comparison is the one with the trimmed term itself: the phone equals it or
  agrees with it on the last 7 characters.
\<close>

theorem searchQueueByPhone_first_match:
  "(trim term = [] \<longrightarrow> searchQueueByPhone term s = Inl ValidationError)
   \<and> (trim term \<noteq> [] \<longrightarrow>
        searchQueueByPhone term s =
          (case find (\<lambda>q. phone_matches (toLowerCase (trim term)) (snd q)) (waiting s) of
             Some q \<Rightarrow> Inr (found_in ''waiting'' q)
           | None \<Rightarrow>
               (case find (\<lambda>q. phone_matches (toLowerCase (trim term)) (snd q)) (serving s) of
                  Some q \<Rightarrow> Inr (found_in ''serving'' q)
                | None \<Rightarrow> Inl NotFoundError)))
   \<and> (phone e \<noteq> [] \<and> list_all is_digit (phone e) \<longrightarrow>
        (phone_matches (toLowerCase (trim term)) e \<longleftrightarrow> spec_phone_match term e))"
proof (intro conjI impI)
  assume "trim term = []"
  then show "searchQueueByPhone term s = Inl ValidationError"
    by (simp add: searchQueueByPhone_def)
next
  assume "trim term \<noteq> []"
  moreover from this have "term \<noteq> []" by auto
  ultimately show "searchQueueByPhone term s =
          (case find (\<lambda>q. phone_matches (toLowerCase (trim term)) (snd q)) (waiting s) of
             Some q \<Rightarrow> Inr (found_in ''waiting'' q)
           | None \<Rightarrow>
               (case find (\<lambda>q. phone_matches (toLowerCase (trim term)) (snd q)) (serving s) of
                  Some q \<Rightarrow> Inr (found_in ''serving'' q)
                | None \<Rightarrow> Inl NotFoundError))"
    unfolding searchQueueByPhone_def phone_scan_find Let_def by simp
next
  assume "phone e \<noteq> [] \<and> list_all is_digit (phone e)"
  then show "phone_matches (toLowerCase (trim term)) e \<longleftrightarrow> spec_phone_match term e"
    by (simp add: phone_matches_digits spec_phone_match_def)
qed

theorem searchQueueByPhone_first_match_witness:
  "searchQueueByPhone ''   '' one_serving = Inl ValidationError
   \<and> searchQueueByPhone '' 9991111111 '' one_serving = Inr (found_in ''serving'' (''A'', alice_serving))
   \<and> searchQueueByPhone ''2222222222'' one_serving = Inr (found_in ''waiting'' (''B'', bob))
   \<and> searchQueueByPhone ''4444444444'' one_serving = Inl NotFoundError
   \<and> phone_matches (toLowerCase (trim '' 9991111111 '')) alice"
proof -
  have t: "trim ''   '' = []" "trim '' 9991111111 '' = ''9991111111''"
    "trim ''2222222222'' = ''2222222222''" "trim ''4444444444'' = ''4444444444''"
    "trim ''1111111111'' = ''1111111111''"
    by (simp_all add: trim_def is_space_def)
  have l: "toLowerCase ''9991111111'' = ''9991111111''" "toLowerCase ''2222222222'' = ''2222222222''"
    "toLowerCase ''4444444444'' = ''4444444444''" "toLowerCase ''1111111111'' = ''1111111111''"
    by (simp_all add: toLowerCase_def lower_char_def)
  have f1: "find (\<lambda>q. phone_matches ''9991111111'' (snd q)) (waiting one_serving) = None"
    "find (\<lambda>q. phone_matches ''9991111111'' (snd q)) (serving one_serving) = Some (''A'', alice_serving)"
    by (simp_all add: phone_matches_def one_serving_def empty_store_def alice_serving_def alice_def
        bob_def t l slice_last_def)
  have f2: "find (\<lambda>q. phone_matches ''2222222222'' (snd q)) (waiting one_serving) = Some (''B'', bob)"
    by (simp add: phone_matches_def one_serving_def empty_store_def bob_def t l slice_last_def)
  have f3: "find (\<lambda>q. phone_matches ''4444444444'' (snd q)) (waiting one_serving) = None"
    "find (\<lambda>q. phone_matches ''4444444444'' (snd q)) (serving one_serving) = None"
    by (simp_all add: phone_matches_def one_serving_def empty_store_def alice_serving_def alice_def
        bob_def t l slice_last_def)
  have d: "phone alice \<noteq> [] \<and> list_all is_digit (phone alice)"
    by (simp add: alice_def is_digit_def)
  have e: "spec_phone_match '' 9991111111 '' alice"
    by (simp add: spec_phone_match_def t alice_def slice_last_def)
  from searchQueueByPhone_first_match [of "''   ''" one_serving alice]
  have a: "searchQueueByPhone ''   '' one_serving = Inl ValidationError"
    by (simp add: t)
  from searchQueueByPhone_first_match [of "'' 9991111111 ''" one_serving alice]
  have b: "searchQueueByPhone '' 9991111111 '' one_serving
      = Inr (found_in ''serving'' (''A'', alice_serving))"
    by (simp add: t l f1)
  from searchQueueByPhone_first_match [of "''2222222222''" one_serving alice]
  have c: "searchQueueByPhone ''2222222222'' one_serving = Inr (found_in ''waiting'' (''B'', bob))"
    by (simp add: t l f2)
  from searchQueueByPhone_first_match [of "''4444444444''" one_serving alice]
  have n: "searchQueueByPhone ''4444444444'' one_serving = Inl NotFoundError"
    by (simp add: t l f3)
  from d e searchQueueByPhone_first_match [of "'' 9991111111 ''" one_serving alice]
  have m: "phone_matches (toLowerCase (trim '' 9991111111 '')) alice"
    by blast
  from a b c n m show ?thesis
    by blast
qed


section \<open>Well-formed stores\<close>

text \<open>
  The empty store is well-formed and every operation keeps a store well-formed, so the
  distinct keys and the party sizes assumed above hold in every store the service builds;
  and in such a store the id of an entry, spliced into the path, addresses that entry.
\<close>

lemma list_all_update:
  "P (k, v) \<Longrightarrow> list_all P al \<Longrightarrow> list_all P (AList.update k v al)"
  by (induction al) auto

lemma list_all_delete: "list_all P al \<Longrightarrow> list_all P (AList.delete k al)"
  by (simp add: AList.delete_eq list_all_iff)

lemma list_all_map_entry:
  "list_all P al \<Longrightarrow> (\<And>v. P (k, v) \<Longrightarrow> P (k, f v)) \<Longrightarrow> list_all P (AList.map_entry k f al)"
  by (induction al) auto

lemma list_all_map_of:
  "list_all P al \<Longrightarrow> map_of al k = Some v \<Longrightarrow> P (k, v)"
  by (auto simp: list_all_iff dest: map_of_SomeD)

lemma store_inv_empty: "store_inv empty_store"
  by (simp add: store_inv_def empty_store_def)

lemma store_inv_key_path:
  assumes "store_inv s" and "map_of (waiting s) k = Some e \<or> map_of (serving s) k = Some e"
  shows "ref_below k = Segments [k]"
proof -
  from assms have "plain_key k"
    by (auto simp: store_inv_def dest: list_all_map_of)
  then show ?thesis
    by (rule ref_below_plain_key)
qed

lemma store_inv_joinQueue:
  assumes "store_inv s" and "plain_key k"
  shows "store_inv (snd (joinQueue nm ps ph k now s))"
  using assms
  by (auto simp: store_inv_def joinQueue_def Let_def distinct_update intro!: list_all_update)

lemma store_inv_updateDailyStats:
  "store_inv (updateDailyStats st p w now today s) = store_inv s"
  by (simp add: store_inv_def updateDailyStats_def Let_def)

lemma store_inv_remove_from:
  "store_inv s \<Longrightarrow> store_inv (remove_from loc k s)"
  by (cases loc) (simp_all add: store_inv_def remove_from_def distinct_delete list_all_delete)

lemma locate_well_formed:
  assumes "store_inv s" and "locate queueId s = Found k e loc"
  shows "plain_key k \<and> 1 \<le> partySize e"
proof (cases loc)
  case Waiting
  with assms(2) have "map_of (waiting s) k = Some e"
    by (simp add: locate_Found_Waiting)
  with assms(1) show ?thesis
    by (auto simp: store_inv_def dest: list_all_map_of)
next
  case Serving
  with assms(2) have "map_of (serving s) k = Some e"
    by (simp add: locate_Found_Serving)
  with assms(1) show ?thesis
    by (auto simp: store_inv_def dest: list_all_map_of)
qed

lemma store_inv_updateQueueStatus:
  assumes "store_inv s" and "updateQueueStatus queueId st now today s = Some (r, s')"
  shows "store_inv s'"
proof (cases "st \<in> set [''serving'', ''completed'', ''skipped'']")
  case False
  with assms show ?thesis by (simp add: updateQueueStatus_def)
next
  case valid: True
  show ?thesis
  proof (cases "locate queueId s")
    case Bad_path
    with assms valid show ?thesis by (auto simp: updateQueueStatus_def)
  next
    case Not_found
    with assms valid show ?thesis by (auto simp: updateQueueStatus_def)
  next
    case Not_an_entry
    with assms valid show ?thesis by (auto simp: updateQueueStatus_def)
  next
    case (Found k e loc)
    from locate_well_formed [OF assms(1) Found] have p: "plain_key k" "1 \<le> partySize e"
      by simp_all
    show ?thesis
    proof (cases "st = ''serving''")
      case True
      with assms Found p show ?thesis
        by (cases loc)
          (auto simp: updateQueueStatus_def store_inv_def distinct_update distinct_delete
            intro!: list_all_update list_all_delete)
    next
      case False
      with valid have st: "st = ''completed'' \<or> st = ''skipped''" by auto
      from assms(1) have "store_inv (remove_from loc k s)"
        by (rule store_inv_remove_from)
      then have "store_inv ((remove_from loc k s)\<lparr>archived :=
           AList.update k (e\<lparr>status := Some st, completedAt := Some now,
                 waitTime := Some (compute_waitTime e)\<rparr>) (archived (remove_from loc k s))\<rparr>)"
        by (simp add: store_inv_def distinct_update)
      with assms(2) show ?thesis
        unfolding updateQueueStatus_archive [OF Found st] by (auto simp: store_inv_updateDailyStats)
    qed
  qed
qed

lemma store_inv_reorderQueues:
  assumes "store_inv s" and "reorderQueues a b s = Some (r, s')"
  shows "store_inv s'"
  using assms
  by (auto simp: store_inv_def reorderQueues_def Let_def distinct_map_entry
      split: ref_result.splits snapshot.splits if_splits intro!: list_all_map_entry)

lemma store_inv_deleteQueueEntry:
  assumes "store_inv s" and "deleteQueueEntry queueId s = Some (r, s')"
  shows "store_inv s'"
  using assms
  by (auto simp: store_inv_def deleteQueueEntry_def Let_def distinct_delete list_all_delete
      split: ref_result.splits list.splits if_splits)

end
